theory Spec2Isabelle
  imports Main "HOL-Library.List_Lexorder" "HOL-Library.Char_ord"
begin

section \<open>AT-URIs\<close>





section \<open>Ingestion scope and the storage gates\<close>

record IngestionScope =
  allowlistedAuthorDids :: "string set"
  publisherDids :: "string set"
  subscriberDids :: "string set"









section \<open>Stored rows\<close>

text \<open>The relations \<^verbatim>\<open>post\<close> and \<^verbatim>\<open>engagement\<close> of db/schema and the migrations. Columns
  without \<^verbatim>\<open>notNull\<close> are optional values; timestamps are \<^verbatim>\<open>varchar\<close> and compare as
  strings.\<close>

record Post =
  uri :: string
  cid :: string
  indexedAt :: string
  createdAt :: string
  author :: string
  postText :: string
  rootUri :: string
  rootCid :: string
  linkUrl :: string
  linkTitle :: string
  linkDescription :: string
  priority :: "int option"
  likes_count :: "int option"
  repost_count :: "int option"
  comments_count :: "int option"
  quote_count :: "int option"

record Engagement =
  e_uri :: string
  e_cid :: string
  subjectUri :: string
  subjectCid :: string
  e_type :: int
  e_indexedAt :: string
  e_createdAt :: string
  e_author :: string

section \<open>JavaScript numbers in the feed cursor\<close>

text \<open>
  The cursor arithmetic of \<^verbatim>\<open>buildFeed\<close> runs on JavaScript numbers. They are modelled as
  integers with \<^verbatim>\<open>NaN\<close>, which is exact for magnitudes below \<open>2^53\<close>.
  \<^verbatim>\<open>parseInt(s, 10)\<close> skips leading white space (the ASCII white space here), reads an
  optional sign and the longest prefix of decimal digits, and yields \<^verbatim>\<open>NaN\<close> when there
  is no digit.
\<close>

datatype jsnum = Num int | NaN

definition jsAdd :: "jsnum \<Rightarrow> jsnum \<Rightarrow> jsnum" where
  "jsAdd a b = (case (a, b) of (Num x, Num y) \<Rightarrow> Num (x + y) | _ \<Rightarrow> NaN)"

definition jsMul :: "jsnum \<Rightarrow> jsnum \<Rightarrow> jsnum" where
  "jsMul a b = (case (a, b) of (Num x, Num y) \<Rightarrow> Num (x * y) | _ \<Rightarrow> NaN)"

definition isWhiteSpace :: "char \<Rightarrow> bool" where
  "isWhiteSpace c = (c \<in> set [CHR 0x09, CHR 0x0A, CHR 0x0B, CHR 0x0C, CHR 0x0D, CHR '' ''])"

definition isDigit :: "char \<Rightarrow> bool" where
  "isDigit c = (c \<in> set ''0123456789'')"

definition digitVal :: "char \<Rightarrow> nat" where
  "digitVal c = of_char c - 48"

definition digitsValue :: "string \<Rightarrow> nat" where
  "digitsValue ds = foldl (\<lambda>a c. 10 * a + digitVal c) 0 ds"

definition parseInt10 :: "string \<Rightarrow> jsnum" where
  "parseInt10 s =
     (let t = dropWhile isWhiteSpace s;
          neg = (t \<noteq> [] \<and> hd t = CHR ''-'');
          u = (if t \<noteq> [] \<and> (hd t = CHR ''-'' \<or> hd t = CHR ''+'') then tl t else t);
          ds = takeWhile isDigit u
      in if ds = [] then NaN
         else Num (if neg then - int (digitsValue ds) else int (digitsValue ds)))"

fun showNat :: "nat \<Rightarrow> string" where
  "showNat n =
     (if n < 10 then [''0123456789'' ! n]
      else showNat (n div 10) @ [''0123456789'' ! (n mod 10)])"

declare showNat.simps [simp del]

definition toStringNum :: "jsnum \<Rightarrow> string" where
  "toStringNum x =
     (case x of
        NaN \<Rightarrow> ''NaN''
      | Num i \<Rightarrow> if i < 0 then CHR ''-'' # showNat (nat (- i)) else showNat (nat i))"

section \<open>The feed builder\<close>

record QueryParams =
  qp_limit :: int
  qp_cursor :: "string option"

record SkeletonFeedPost =
  sk_post :: string

record AlgoOutput =
  out_cursor :: "string option"
  out_feed :: "SkeletonFeedPost list"

text \<open>A \<^verbatim>\<open>QueryBuilder\<close> receives the database, the time limit, the requester's follows,
  the cursor offset and the limit; executing its query yields rows or fails.\<close>

type_synonym 'db QueryBuilder =
  "'db \<Rightarrow> string \<Rightarrow> string list \<Rightarrow> jsnum \<Rightarrow> jsnum \<Rightarrow> string + Post list"

text \<open>Every builder under algos/ ends in \<^verbatim>\<open>.offset(cursorOffset).limit(limit)\<close> over an
  ordered selection. \<open>pagedQuery rows\<close> is that tail, \<open>rows\<close> being the ordered selection;
  the storage engine rejects an offset or limit that is negative or not a number.\<close>

definition pagedQuery :: "Post list \<Rightarrow> jsnum \<Rightarrow> jsnum \<Rightarrow> string + Post list" where
  "pagedQuery rows off lim =
     (case off of
        NaN \<Rightarrow> Inl ''invalid input syntax for type bigint''
      | Num ofs \<Rightarrow>
          (case lim of
             NaN \<Rightarrow> Inl ''invalid input syntax for type bigint''
           | Num l \<Rightarrow>
               if ofs < 0 then Inl ''OFFSET must not be negative''
               else if l < 0 then Inl ''LIMIT must not be negative''
               else Inr (take (nat l) (drop (nat ofs) rows))))"

definition skeleton :: "Post \<Rightarrow> SkeletonFeedPost" where
  "skeleton p = \<lparr> sk_post = uri p \<rparr>"

text \<open>The merge loop of \<^verbatim>\<open>buildFeed\<close>, on the rows not yet consumed
  (\<^verbatim>\<open>publisherPosts\<close> from \<^verbatim>\<open>publisherIndex\<close> on, \<^verbatim>\<open>otherPosts\<close> from \<^verbatim>\<open>otherIndex\<close> on):
  each round pushes one publisher post if there is one, then up to two other posts.\<close>

function mergeLoop :: "Post list \<Rightarrow> Post list \<Rightarrow> SkeletonFeedPost list" where
  "mergeLoop ps os =
     (if ps \<noteq> [] \<or> os \<noteq> []
      then map skeleton (take 1 ps) @ map skeleton (take 2 os) @ mergeLoop (drop 1 ps) (drop 2 os)
      else [])"
  by pat_completeness auto
termination
  by (relation "measure (\<lambda>(ps, os). length ps + length os)") (auto simp: neq_Nil_conv)

declare mergeLoop.simps [simp del]

definition cursorOffsetOf :: "QueryParams \<Rightarrow> jsnum" where
  "cursorOffsetOf params =
     (case qp_cursor params of
        None \<Rightarrow> Num 0
      | Some c \<Rightarrow> if c = [] then Num 0 else parseInt10 c)"

definition buildFeed ::
  "'db \<Rightarrow> string \<Rightarrow> string list \<Rightarrow> QueryParams \<Rightarrow> 'db QueryBuilder \<Rightarrow> 'db QueryBuilder
     \<Rightarrow> string + AlgoOutput" where
  "buildFeed db timeLimit requesterFollows params buildPublisherQuery buildFollowsQuery =
     (let lim = Num (qp_limit params div 3);
          cursorOffset = cursorOffsetOf params
      in case buildPublisherQuery db timeLimit requesterFollows cursorOffset lim of
           Inl err \<Rightarrow> Inl err
         | Inr publisherPosts \<Rightarrow>
             (case buildFollowsQuery db timeLimit requesterFollows cursorOffset
                     (jsMul lim (Num 2)) of
                Inl err \<Rightarrow> Inl err
              | Inr otherPosts \<Rightarrow>
                  Inr \<lparr> out_cursor =
                          (if length publisherPosts + length otherPosts > 0
                           then Some (toStringNum (jsAdd cursorOffset (jsMul lim (Num 2))))
                           else None),
                        out_feed = mergeLoop publisherPosts otherPosts \<rparr>))"

section \<open>Reference notions for the feed properties\<close>

text \<open>The interleaving the specification describes: \<open>fullRounds\<close> counts the rounds in
  which the publisher stream still has a row and the network stream is not yet exhausted;
  \<open>roundOf\<close> is the feed segment of round \<open>i\<close>. \<open>mkPost\<close> and the example rows are
  concrete data for the instances below.\<close>

definition fullRounds :: "'a list \<Rightarrow> 'b list \<Rightarrow> nat" where
  "fullRounds ps os = min (length ps) ((length os + 1) div 2)"

definition roundOf :: "Post list \<Rightarrow> Post list \<Rightarrow> nat \<Rightarrow> SkeletonFeedPost list" where
  "roundOf ps os i = skeleton (ps ! i) # map skeleton (take 2 (drop (2 * i) os))"

definition mkPost :: "string \<Rightarrow> string \<Rightarrow> string \<Rightarrow> Post" where
  "mkPost u a t =
     \<lparr> uri = u, cid = ''cid'', indexedAt = t, createdAt = t, author = a, postText = [],
       rootUri = [], rootCid = [], linkUrl = [], linkTitle = [], linkDescription = [],
       priority = None, likes_count = Some 0, repost_count = Some 0, comments_count = Some 0,
       quote_count = Some 0 \<rparr>"

definition examplePublisherRows :: "Post list" where
  "examplePublisherRows =
     map (\<lambda>u. mkPost u ''did:plc:pub'' ''2026-01-01T00:00:00.000Z'')
       [''at://pub/1'', ''at://pub/2'', ''at://pub/3'', ''at://pub/4'']"

definition exampleNetworkRows :: "Post list" where
  "exampleNetworkRows =
     map (\<lambda>u. mkPost u ''did:plc:net'' ''2026-01-01T00:00:00.000Z'')
       [''at://net/1'', ''at://net/2'', ''at://net/3'', ''at://net/4'', ''at://net/5'',
        ''at://net/6'', ''at://net/7'']"

definition publisherPage :: "unit QueryBuilder" where
  "publisherPage db timeLimit requesterFollows = pagedQuery examplePublisherRows"

definition networkPage :: "unit QueryBuilder" where
  "networkPage db timeLimit requesterFollows = pagedQuery exampleNetworkRows"

section \<open>The event projector\<close>












record Follows =
  f_subject :: string
  f_follows :: string

record Subscriber =
  s_handle :: string
  s_did :: string

record Database =
  post_tbl :: "Post list"
  engagement_tbl :: "Engagement list"
  follows_tbl :: "Follows list"
  subscriber_tbl :: "Subscriber list"





















definition likeRow :: Engagement where
  "likeRow =
     \<lparr> e_uri = ''at://did:plc:c/app.bsky.feed.like/l'', e_cid = ''cl'',
       subjectUri = ''at://did:plc:a/app.bsky.feed.post/p'', subjectCid = ''cp'',
       e_type = 2, e_indexedAt = ''2026-01-01T00:00:02.000Z'',
       e_createdAt = ''2026-01-01T00:00:01.000Z'', e_author = ''did:plc:c'' \<rparr>"

definition quoteRow :: Engagement where
  "quoteRow =
     \<lparr> e_uri = ''at://did:plc:b/app.bsky.feed.post/q'', e_cid = ''cq'',
       subjectUri = ''at://did:plc:a/app.bsky.feed.post/p'', subjectCid = ''cp'',
       e_type = 3, e_indexedAt = ''2026-01-01T00:00:02.000Z'',
       e_createdAt = ''2026-01-01T00:00:00.000Z'', e_author = ''did:plc:b'' \<rparr>"

section \<open>The retention trimmer\<close>

record RetentionConfig =
  enabled :: bool
  postRetentionDays :: int
  engagementRetentionDays :: int
  deleteBatchSize :: int

text \<open>
  One batch: \<^verbatim>\<open>DELETE FROM t WHERE ctid IN (SELECT ctid FROM t WHERE "indexedAt" < cutoff LIMIT n)\<close>.
  The inner selection takes the first \<open>n\<close> matching rows in the table's physical order; the
  result is the table without them and the number of rows deleted, which is what
  \<^verbatim>\<open>numDeleted\<close> reads from the statement's result.
\<close>

fun deleteBatch :: "('r \<Rightarrow> string) \<Rightarrow> string \<Rightarrow> nat \<Rightarrow> 'r list \<Rightarrow> 'r list \<times> nat" where
  "deleteBatch ts cutoff n [] = ([], 0)"
| "deleteBatch ts cutoff n (r # rs) =
     (if 0 < n \<and> ts r < cutoff
      then (case deleteBatch ts cutoff (n - 1) rs of (rest, k) \<Rightarrow> (rest, Suc k))
      else (case deleteBatch ts cutoff n rs of (rest, k) \<Rightarrow> (r # rest, k)))"

text \<open>
  The \<^verbatim>\<open>while (true)\<close> loop over one table. It may run forever, so its result is optional:
  \<open>None\<close> is a loop that never leaves. The storage engine rejects a negative \<^verbatim>\<open>LIMIT\<close>, which
  makes the first statement throw.
\<close>

partial_function (option) retentionLoop ::
  "('r \<Rightarrow> string) \<Rightarrow> string \<Rightarrow> int \<Rightarrow> int \<Rightarrow> 'r list \<Rightarrow> (string + 'r list \<times> int) option" where
  "retentionLoop ts cutoff batchSize totalDeleted tbl =
     (if batchSize < 0 then Some (Inl ''LIMIT must not be negative'')
      else
        (case deleteBatch ts cutoff (nat batchSize) tbl of
           (tbl', deleted) \<Rightarrow>
             if int deleted < batchSize then Some (Inr (tbl', totalDeleted + int deleted))
             else retentionLoop ts cutoff batchSize (totalDeleted + int deleted) tbl'))"

text \<open>\<^verbatim>\<open>runRetentionOnce\<close>; \<open>isoDaysAgo\<close> is the clock: the ISO timestamp of the instant the
  given number of days before now.\<close>

definition runRetentionOnce ::
  "RetentionConfig \<Rightarrow> (int \<Rightarrow> string) \<Rightarrow> Database \<Rightarrow> (string + Database) option" where
  "runRetentionOnce cfg isoDaysAgo db =
     (if \<not> enabled cfg then Some (Inr db)
      else
        (let postCutoff = isoDaysAgo (postRetentionDays cfg);
             engagementCutoff = isoDaysAgo (engagementRetentionDays cfg)
         in case retentionLoop e_indexedAt engagementCutoff (deleteBatchSize cfg) 0
                   (engagement_tbl db) of
              None \<Rightarrow> None
            | Some (Inl err) \<Rightarrow> Some (Inl err)
            | Some (Inr (engs, totalEngagementDeleted)) \<Rightarrow>
                (case retentionLoop indexedAt postCutoff (deleteBatchSize cfg) 0 (post_tbl db) of
                   None \<Rightarrow> None
                 | Some (Inl err) \<Rightarrow> Some (Inl err)
                 | Some (Inr (posts, totalPostsDeleted)) \<Rightarrow>
                     Some (Inr (db \<lparr> engagement_tbl := engs, post_tbl := posts \<rparr>)))))"


text \<open>A concrete store and configuration for the instance below: two engagement rows and one
  post older than the cutoff, one engagement row and one post newer.\<close>

definition freshLikeRow :: Engagement where
  "freshLikeRow =
     \<lparr> e_uri = ''at://did:plc:c/app.bsky.feed.like/m'', e_cid = ''cm'',
       subjectUri = ''at://did:plc:a/app.bsky.feed.post/p'', subjectCid = ''cp'',
       e_type = 2, e_indexedAt = ''2026-01-20T00:00:00.000Z'',
       e_createdAt = ''2026-01-20T00:00:00.000Z'', e_author = ''did:plc:c'' \<rparr>"

definition agedDatabase :: Database where
  "agedDatabase =
     \<lparr> post_tbl =
         [mkPost ''at://did:plc:a/app.bsky.feed.post/p'' ''did:plc:a'' ''2026-01-01T00:00:00.000Z'',
          mkPost ''at://did:plc:a/app.bsky.feed.post/r'' ''did:plc:a'' ''2026-01-19T00:00:00.000Z''],
       engagement_tbl = [likeRow, freshLikeRow, quoteRow],
       follows_tbl = [],
       subscriber_tbl = [] \<rparr>"

definition smallBatchConfig :: RetentionConfig where
  "smallBatchConfig =
     \<lparr> enabled = True, postRetentionDays = 14, engagementRetentionDays = 14,
       deleteBatchSize = 1 \<rparr>"

definition fixedClock :: "int \<Rightarrow> string" where
  "fixedClock days = ''2026-01-15T00:00:00.000Z''"

section \<open>The engagement aggregator\<close>

definition IN_CLAUSE_CHUNK_SIZE :: nat where
  "IN_CLAUSE_CHUNK_SIZE = 50000"

definition batchSize :: nat where
  "batchSize = 5000"

text \<open>
  The slices \<^verbatim>\<open>items.slice(i, i + n)\<close> for \<open>i = 0, n, 2n, \<dots>\<close> below \<^verbatim>\<open>items.length\<close>, as the
  \<^verbatim>\<open>for\<close> loops of \<^verbatim>\<open>execInChunks\<close> and of the final update take them. The step \<open>n\<close> is a
  positive constant in the source; the guard on \<open>n = 0\<close> only makes the function total.
\<close>

function chunksOf :: "nat \<Rightarrow> 'a list \<Rightarrow> 'a list list" where
  "chunksOf n items =
     (if items = [] \<or> n = 0 then [] else take n items # chunksOf n (drop n items))"
  by pat_completeness auto
termination
  by (relation "measure (\<lambda>(n, items). length items)") auto

declare chunksOf.simps [simp del]

definition execInChunksWith :: "nat \<Rightarrow> string list \<Rightarrow> (string list \<Rightarrow> 'a list) \<Rightarrow> 'a list" where
  "execInChunksWith n items fn = concat (map fn (chunksOf n items))"

definition execInChunks :: "string list \<Rightarrow> (string list \<Rightarrow> 'a list) \<Rightarrow> 'a list" where
  "execInChunks items fn = execInChunksWith IN_CLAUSE_CHUNK_SIZE items fn"

text \<open>
  The count queries: \<^verbatim>\<open>SELECT key AS uri, count(uri) AS count FROM t WHERE key IN (chunk) AND cond
  GROUP BY key\<close>, one result row per key value that has a matching row.
\<close>

definition countQuery ::
  "('r \<Rightarrow> string) \<Rightarrow> ('r \<Rightarrow> bool) \<Rightarrow> 'r list \<Rightarrow> string list \<Rightarrow> (string \<times> int) list" where
  "countQuery key cond tbl chunk =
     (let rows = filter (\<lambda>r. key r \<in> set chunk \<and> cond r) tbl
      in map (\<lambda>u. (u, int (length (filter (\<lambda>r. key r = u) rows)))) (remdups (map key rows)))"

text \<open>\<^verbatim>\<open>new Map(entries)\<close>: a later entry for a key replaces an earlier one;
  \<^verbatim>\<open>map.get(uri) || 0\<close> reads it.\<close>

definition jsMapOf :: "(string \<times> int) list \<Rightarrow> (string \<rightharpoonup> int)" where
  "jsMapOf entries = map_of (rev entries)"

definition getOrZero :: "(string \<rightharpoonup> int) \<Rightarrow> string \<Rightarrow> int" where
  "getOrZero m u = (case m u of None \<Rightarrow> 0 | Some v \<Rightarrow> v)"

text \<open>\<^verbatim>\<open>CASE WHEN uri = u1 THEN v1 WHEN uri = u2 THEN v2 \<dots> ELSE old END\<close> over the URIs of a
  batch, and the \<^verbatim>\<open>UPDATE post SET \<dots> WHERE uri IN (batch)\<close> built from it.\<close>

definition caseWhen :: "string list \<Rightarrow> (string \<rightharpoonup> int) \<Rightarrow> string \<Rightarrow> int option \<Rightarrow> int option" where
  "caseWhen batchUris m u old =
     (case find (\<lambda>w. u = w) batchUris of Some w \<Rightarrow> Some (getOrZero m w) | None \<Rightarrow> old)"

definition updateBatch ::
  "(string \<rightharpoonup> int) \<Rightarrow> (string \<rightharpoonup> int) \<Rightarrow> (string \<rightharpoonup> int) \<Rightarrow> Post list \<Rightarrow> string list
     \<Rightarrow> Post list" where
  "updateBatch likesMap repostsMap commentsMap tbl batchUris =
     map (\<lambda>p. if uri p \<in> set batchUris
              then p \<lparr> likes_count := caseWhen batchUris likesMap (uri p) (likes_count p),
                       repost_count := caseWhen batchUris repostsMap (uri p) (repost_count p),
                       comments_count := caseWhen batchUris commentsMap (uri p) (comments_count p) \<rparr>
              else p) tbl"

text \<open>
  \<^verbatim>\<open>updateEngagement\<close>, with the chunk size of the count queries and the batch size of the
  update as parameters \<open>c\<close> and \<open>b\<close>; \<open>newsbotDids\<close> are the publisher DIDs of the environment
  and \<open>timeLimit\<close> the ISO timestamp of the start of the rolling window.
\<close>

definition updateEngagementWith ::
  "nat \<Rightarrow> nat \<Rightarrow> string list \<Rightarrow> string \<Rightarrow> Database \<Rightarrow> Database" where
  "updateEngagementWith c b newsbotDids timeLimit db =
     (let subscriberDids = map s_did (subscriber_tbl db);
          followsList = map f_follows (follows_tbl db)
      in if length followsList = 0 then db
         else
           (let accountsToCheck = remdups (followsList @ newsbotDids);
                recentPosts = filter (\<lambda>p. timeLimit \<le> indexedAt p \<and> author p \<in> set accountsToCheck)
                                (post_tbl db);
                postUris = map uri recentPosts;
                publisherPostUris = map uri (filter (\<lambda>p. author p \<in> set newsbotDids) recentPosts);
                otherPostUris = map uri (filter (\<lambda>p. author p \<notin> set newsbotDids) recentPosts)
            in if length postUris = 0 then db
               else
                 (let bySubscriber = (\<lambda>a. a \<in> set subscriberDids);
                      otherLikesResult =
                        (if length otherPostUris > 0
                         then execInChunksWith c otherPostUris
                                (countQuery subjectUri (\<lambda>e. e_type e = 2) (engagement_tbl db))
                         else []);
                      publisherLikesResult =
                        (if length publisherPostUris > 0 \<and> length subscriberDids > 0
                         then execInChunksWith c publisherPostUris
                                (countQuery subjectUri
                                   (\<lambda>e. bySubscriber (e_author e) \<and> e_type e = 2) (engagement_tbl db))
                         else []);
                      likeCountsResult = otherLikesResult @ publisherLikesResult;
                      otherRepostsResult =
                        (if length otherPostUris > 0
                         then execInChunksWith c otherPostUris
                                (countQuery subjectUri (\<lambda>e. e_type e = 1) (engagement_tbl db))
                         else []);
                      publisherRepostsResult =
                        (if length publisherPostUris > 0 \<and> length subscriberDids > 0
                         then execInChunksWith c publisherPostUris
                                (countQuery subjectUri
                                   (\<lambda>e. bySubscriber (e_author e) \<and> e_type e = 1) (engagement_tbl db))
                         else []);
                      repostCountsResult = otherRepostsResult @ publisherRepostsResult;
                      otherCommentsResult =
                        (if length otherPostUris > 0
                         then execInChunksWith c otherPostUris
                                (countQuery rootUri (\<lambda>p. rootUri p \<noteq> []) (post_tbl db))
                         else []);
                      publisherCommentsResult =
                        (if length publisherPostUris > 0 \<and> length subscriberDids > 0
                         then execInChunksWith c publisherPostUris
                                (countQuery rootUri
                                   (\<lambda>p. bySubscriber (author p) \<and> rootUri p \<noteq> []) (post_tbl db))
                         else []);
                      commentCountsResult = otherCommentsResult @ publisherCommentsResult;
                      likesMap = jsMapOf likeCountsResult;
                      repostsMap = jsMapOf repostCountsResult;
                      commentsMap = jsMapOf commentCountsResult
                  in db \<lparr> post_tbl :=
                            foldl (updateBatch likesMap repostsMap commentsMap) (post_tbl db)
                              (chunksOf b postUris) \<rparr>)))"

definition updateEngagement :: "string list \<Rightarrow> string \<Rightarrow> Database \<Rightarrow> Database" where
  "updateEngagement newsbotDids timeLimit db =
     updateEngagementWith IN_CLAUSE_CHUNK_SIZE batchSize newsbotDids timeLimit db"

text \<open>
  The reference run of the specification: the same queries and the same update, each issued
  once over the whole URI list instead of chunk by chunk.
\<close>

definition updateEngagementUnchunked :: "string list \<Rightarrow> string \<Rightarrow> Database \<Rightarrow> Database" where
  "updateEngagementUnchunked newsbotDids timeLimit db =
     (let subscriberDids = map s_did (subscriber_tbl db);
          followsList = map f_follows (follows_tbl db)
      in if length followsList = 0 then db
         else
           (let accountsToCheck = remdups (followsList @ newsbotDids);
                recentPosts = filter (\<lambda>p. timeLimit \<le> indexedAt p \<and> author p \<in> set accountsToCheck)
                                (post_tbl db);
                postUris = map uri recentPosts;
                publisherPostUris = map uri (filter (\<lambda>p. author p \<in> set newsbotDids) recentPosts);
                otherPostUris = map uri (filter (\<lambda>p. author p \<notin> set newsbotDids) recentPosts)
            in if length postUris = 0 then db
               else
                 (let bySubscriber = (\<lambda>a. a \<in> set subscriberDids);
                      otherLikesResult =
                        (if length otherPostUris > 0
                         then countQuery subjectUri (\<lambda>e. e_type e = 2) (engagement_tbl db)
                                otherPostUris
                         else []);
                      publisherLikesResult =
                        (if length publisherPostUris > 0 \<and> length subscriberDids > 0
                         then countQuery subjectUri
                                (\<lambda>e. bySubscriber (e_author e) \<and> e_type e = 2) (engagement_tbl db)
                                publisherPostUris
                         else []);
                      likeCountsResult = otherLikesResult @ publisherLikesResult;
                      otherRepostsResult =
                        (if length otherPostUris > 0
                         then countQuery subjectUri (\<lambda>e. e_type e = 1) (engagement_tbl db)
                                otherPostUris
                         else []);
                      publisherRepostsResult =
                        (if length publisherPostUris > 0 \<and> length subscriberDids > 0
                         then countQuery subjectUri
                                (\<lambda>e. bySubscriber (e_author e) \<and> e_type e = 1) (engagement_tbl db)
                                publisherPostUris
                         else []);
                      repostCountsResult = otherRepostsResult @ publisherRepostsResult;
                      otherCommentsResult =
                        (if length otherPostUris > 0
                         then countQuery rootUri (\<lambda>p. rootUri p \<noteq> []) (post_tbl db) otherPostUris
                         else []);
                      publisherCommentsResult =
                        (if length publisherPostUris > 0 \<and> length subscriberDids > 0
                         then countQuery rootUri
                                (\<lambda>p. bySubscriber (author p) \<and> rootUri p \<noteq> []) (post_tbl db)
                                publisherPostUris
                         else []);
                      commentCountsResult = otherCommentsResult @ publisherCommentsResult;
                      likesMap = jsMapOf likeCountsResult;
                      repostsMap = jsMapOf repostCountsResult;
                      commentsMap = jsMapOf commentCountsResult
                  in db \<lparr> post_tbl :=
                            updateBatch likesMap repostsMap commentsMap (post_tbl db) postUris \<rparr>)))"

text \<open>The number of rows of a table whose \<open>key\<close> is \<open>u\<close> and that satisfy \<open>cond\<close>: the count
  the specification recomputes for the post \<open>u\<close>.\<close>

definition countOn :: "('r \<Rightarrow> string) \<Rightarrow> ('r \<Rightarrow> bool) \<Rightarrow> 'r list \<Rightarrow> string \<Rightarrow> int" where
  "countOn key cond tbl u = int (length (filter (\<lambda>r. key r = u \<and> cond r) tbl))"

text \<open>A post row with its three cached counts replaced by what the maps give for its URI.\<close>

definition recount ::
  "(string \<rightharpoonup> int) \<Rightarrow> (string \<rightharpoonup> int) \<Rightarrow> (string \<rightharpoonup> int) \<Rightarrow> Post \<Rightarrow> Post" where
  "recount likesMap repostsMap commentsMap p =
     p \<lparr> likes_count := Some (getOrZero likesMap (uri p)),
         repost_count := Some (getOrZero repostsMap (uri p)),
         comments_count := Some (getOrZero commentsMap (uri p)) \<rparr>"

text \<open>
  The candidates of a run and what the run stores for them, in the specification's words:
  a candidate is a post of the rolling window written by a followed account or a publisher
  (there are none when nobody is followed); its likes are the type-2 rows on it, its reposts
  the type-1 rows, its comments the posts whose root is its URI, where for a post of a
  publisher only rows and comments written by subscribers count.
\<close>

definition isCandidate :: "string list \<Rightarrow> string \<Rightarrow> Database \<Rightarrow> Post \<Rightarrow> bool" where
  "isCandidate newsbotDids timeLimit db p =
     (follows_tbl db \<noteq> [] \<and> timeLimit \<le> indexedAt p \<and>
      (author p \<in> f_follows ` set (follows_tbl db) \<or> author p \<in> set newsbotDids))"

definition countedActor :: "string list \<Rightarrow> Database \<Rightarrow> Post \<Rightarrow> string \<Rightarrow> bool" where
  "countedActor newsbotDids db p a =
     (if author p \<in> set newsbotDids then a \<in> s_did ` set (subscriber_tbl db) else True)"

definition recomputed :: "string list \<Rightarrow> Database \<Rightarrow> Post \<Rightarrow> Post" where
  "recomputed newsbotDids db p =
     p \<lparr> likes_count :=
           Some (countOn subjectUri
                   (\<lambda>e. countedActor newsbotDids db p (e_author e) \<and> e_type e = 2)
                   (engagement_tbl db) (uri p)),
         repost_count :=
           Some (countOn subjectUri
                   (\<lambda>e. countedActor newsbotDids db p (e_author e) \<and> e_type e = 1)
                   (engagement_tbl db) (uri p)),
         comments_count :=
           Some (countOn rootUri
                   (\<lambda>q. countedActor newsbotDids db p (author q) \<and> rootUri q \<noteq> [])
                   (post_tbl db) (uri p)) \<rparr>"

definition withCounts :: "int option \<Rightarrow> int option \<Rightarrow> int option \<Rightarrow> Post \<Rightarrow> Post" where
  "withCounts l r c p = p \<lparr> likes_count := l, repost_count := r, comments_count := c \<rparr>"

text \<open>
  A concrete store for the instances below. The account \<open>a\<close> is followed, \<open>news\<close> is the
  publisher and \<open>s\<close> the only subscriber. Post \<open>1\<close> of \<open>a\<close> carries three likes, one quote
  and one comment and a stale likes count of 99; the publisher's post \<open>n\<close> carries three
  likes of which one is by the subscriber; post \<open>0\<close> lies before the window.
\<close>

definition likeOf :: "string \<Rightarrow> int \<Rightarrow> string \<Rightarrow> string \<Rightarrow> Engagement" where
  "likeOf u ty subj who =
     \<lparr> e_uri = u, e_cid = ''c'', subjectUri = subj, subjectCid = ''c'', e_type = ty,
       e_indexedAt = ''2026-01-19T00:00:00.000Z'', e_createdAt = ''2026-01-19T00:00:00.000Z'',
       e_author = who \<rparr>"

definition windowStart :: string where
  "windowStart = ''2026-01-16T00:00:00.000Z''"

definition theNewsbots :: "string list" where
  "theNewsbots = [''news'']"

definition busyDatabase :: Database where
  "busyDatabase =
     \<lparr> post_tbl =
         [(mkPost ''at://a/1'' ''a'' ''2026-01-19T00:00:00.000Z'') \<lparr> likes_count := Some 99 \<rparr>,
          mkPost ''at://a/2'' ''a'' ''2026-01-19T00:00:00.000Z'',
          mkPost ''at://a/3'' ''a'' ''2026-01-19T00:00:00.000Z'',
          (mkPost ''at://news/n'' ''news'' ''2026-01-19T00:00:00.000Z'') \<lparr> repost_count := None \<rparr>,
          (mkPost ''at://x/c'' ''x'' ''2026-01-19T00:00:00.000Z'') \<lparr> rootUri := ''at://a/1'' \<rparr>,
          (mkPost ''at://a/0'' ''a'' ''2025-12-01T00:00:00.000Z'') \<lparr> likes_count := Some 5 \<rparr>],
       engagement_tbl =
         [likeOf ''at://x/l1'' 2 ''at://a/1'' ''x'',
          likeOf ''at://y/l1'' 2 ''at://a/1'' ''y'',
          likeOf ''at://s/l1'' 2 ''at://a/1'' ''s'',
          likeOf ''at://x/r2'' 1 ''at://a/2'' ''x'',
          likeOf ''at://y/q1'' 3 ''at://a/1'' ''y'',
          likeOf ''at://s/ln'' 2 ''at://news/n'' ''s'',
          likeOf ''at://x/ln'' 2 ''at://news/n'' ''x'',
          likeOf ''at://y/ln'' 2 ''at://news/n'' ''y''],
       follows_tbl = [\<lparr> f_subject = ''s'', f_follows = ''a'' \<rparr>],
       subscriber_tbl = [\<lparr> s_handle = ''s.example'', s_did = ''s'' \<rparr>] \<rparr>"

definition storedCounts :: "Post \<Rightarrow> string \<times> int option \<times> int option \<times> int option \<times> int option" where
  "storedCounts p = (uri p, likes_count p, repost_count p, comments_count p, quote_count p)"

definition isLikeRow :: "Engagement \<Rightarrow> bool" where
  "isLikeRow e = (e_type e = 2)"

definition isQuoteRow :: "Engagement \<Rightarrow> bool" where
  "isQuoteRow e = (e_type e = 3)"

section \<open>The compliance engagement export\<close>

datatype EngagementExportType = Like | Repost | Comment | Quote | UnknownType

datatype EngagementExportScope =
  ScopeUnion | ScopePublisher | ScopeSubscriber | ScopeSubscriberOnPublisher

record EngagementFilters =
  flt_since :: string
  flt_until :: string
  flt_scope :: EngagementExportScope
  flt_limit :: int
  flt_types :: "EngagementExportType list"
  flt_subscriberDid :: "string option"
  flt_includeOtherSubscriberActivity :: bool

text \<open>A row of the \<^verbatim>\<open>enriched\<close> and \<^verbatim>\<open>scoped\<close> common table expressions of
  \<^verbatim>\<open>handleEngagementExport\<close>.\<close>

record ExportRow =
  x_type :: EngagementExportType
  event_uri :: string
  subject_uri :: string
  author_did :: string
  created_at :: string
  is_publisher_target :: bool
  is_subscriber_actor :: bool
  type_rank :: int

text \<open>\<^verbatim>\<open>CASE e.type WHEN 1 THEN 'repost' WHEN 2 THEN 'like' WHEN 3 THEN 'quote' ELSE 'unknown'\<close>
  and \<^verbatim>\<open>CASE b.type WHEN 'like' THEN 1 WHEN 'repost' THEN 2 WHEN 'comment' THEN 3 WHEN 'quote'
  THEN 4 ELSE 0\<close>.\<close>

definition typeOfCode :: "int \<Rightarrow> EngagementExportType" where
  "typeOfCode t = (if t = 1 then Repost else if t = 2 then Like else if t = 3 then Quote
                   else UnknownType)"

fun typeRank :: "EngagementExportType \<Rightarrow> int" where
  "typeRank Like = 1"
| "typeRank Repost = 2"
| "typeRank Comment = 3"
| "typeRank Quote = 4"
| "typeRank UnknownType = 0"

text \<open>\<^verbatim>\<open>split_part(s, d, n)\<close>: the \<open>n\<close>-th field (from 1) of \<open>s\<close> split at the character \<open>d\<close>, empty
  when there are fewer fields.\<close>

fun splitOn :: "char \<Rightarrow> string \<Rightarrow> string list" where
  "splitOn d [] = [[]]"
| "splitOn d (c # cs) =
     (if c = d then [] # splitOn d cs
      else (case splitOn d cs of [] \<Rightarrow> [[c]] | f # fs \<Rightarrow> (c # f) # fs))"

definition split_part :: "string \<Rightarrow> char \<Rightarrow> nat \<Rightarrow> string" where
  "split_part s d n =
     (let fs = splitOn d s in if 1 \<le> n \<and> n \<le> length fs then fs ! (n - 1) else [])"

definition baseRows :: "string \<Rightarrow> string \<Rightarrow> Database \<Rightarrow> (EngagementExportType \<times> string \<times> string \<times> string \<times> string) list" where
  "baseRows since until db =
     map (\<lambda>e. (typeOfCode (e_type e), e_uri e, subjectUri e, e_author e, e_createdAt e))
       (filter (\<lambda>e. since \<le> e_createdAt e \<and> e_createdAt e < until) (engagement_tbl db))
     @ map (\<lambda>p. (Comment, uri p, rootUri p, author p, createdAt p))
         (filter (\<lambda>p. rootUri p \<noteq> [] \<and> since \<le> createdAt p \<and> createdAt p < until) (post_tbl db))"

definition enrich ::
  "string list \<Rightarrow> Database \<Rightarrow> EngagementExportType \<times> string \<times> string \<times> string \<times> string \<Rightarrow> ExportRow" where
  "enrich pubDids db b =
     (case b of (ty, ev, subj, who, at) \<Rightarrow>
        \<lparr> x_type = ty, event_uri = ev, subject_uri = subj, author_did = who, created_at = at,
          is_publisher_target =
            (if length pubDids > 0 then split_part subj CHR ''/'' 3 \<in> set pubDids
             else False),
          is_subscriber_actor = (\<exists>s \<in> set (subscriber_tbl db). s_did s = who),
          type_rank = typeRank ty \<rparr>)"

definition scopeFilter :: "EngagementExportScope \<Rightarrow> ExportRow \<Rightarrow> bool" where
  "scopeFilter sc r =
     (case sc of
        ScopePublisher \<Rightarrow> is_publisher_target r
      | ScopeSubscriber \<Rightarrow> is_subscriber_actor r
      | ScopeSubscriberOnPublisher \<Rightarrow> is_publisher_target r \<and> is_subscriber_actor r
      | ScopeUnion \<Rightarrow> is_publisher_target r \<or> is_subscriber_actor r)"

definition scopedRows :: "EngagementFilters \<Rightarrow> string list \<Rightarrow> Database \<Rightarrow> ExportRow list" where
  "scopedRows f pubDids db =
     filter (\<lambda>r. x_type r \<in> set (flt_types f)
                \<and> (case flt_subscriberDid f of Some d \<Rightarrow> author_did r = d | None \<Rightarrow> True)
                \<and> scopeFilter (flt_scope f) r)
       (map (enrich pubDids db) (baseRows (flt_since f) (flt_until f) db))"

text \<open>
  \<^verbatim>\<open>SELECT DISTINCT ON (event_uri) \<dots> FROM scoped ORDER BY event_uri, created_at DESC,
  type_rank DESC\<close>: the rows are sorted by that key and the first row of every run of equal
  \<^verbatim>\<open>event_uri\<close> is kept. \<open>sortsBefore a b\<close> says that \<open>a\<close> may stand before \<open>b\<close> in the sorted
  list.
\<close>

definition sortsBefore :: "ExportRow \<Rightarrow> ExportRow \<Rightarrow> bool" where
  "sortsBefore a b =
     (event_uri a < event_uri b \<or>
      (event_uri a = event_uri b \<and>
       (created_at b < created_at a \<or>
        (created_at a = created_at b \<and> type_rank b \<le> type_rank a))))"

fun insertRow :: "ExportRow \<Rightarrow> ExportRow list \<Rightarrow> ExportRow list" where
  "insertRow r [] = [r]"
| "insertRow r (x # xs) = (if sortsBefore r x then r # x # xs else x # insertRow r xs)"

definition sortRows :: "ExportRow list \<Rightarrow> ExportRow list" where
  "sortRows rows = foldr insertRow rows []"

fun distinctOn :: "ExportRow list \<Rightarrow> ExportRow list" where
  "distinctOn [] = []"
| "distinctOn [r] = [r]"
| "distinctOn (r1 # r2 # rs) =
     (if event_uri r1 = event_uri r2 then distinctOn (r1 # rs) else r1 # distinctOn (r2 # rs))"

definition deduped :: "ExportRow list \<Rightarrow> ExportRow list" where
  "deduped scoped = distinctOn (sortRows scoped)"

definition dedupedRows :: "EngagementFilters \<Rightarrow> string list \<Rightarrow> Database \<Rightarrow> ExportRow list" where
  "dedupedRows f pubDids db = deduped (scopedRows f pubDids db)"

text \<open>The order of the claim: \<open>r\<close> wins over \<open>r'\<close> when it was created later, or at the same
  time with a type rank at least as high.\<close>

definition winsOver :: "ExportRow \<Rightarrow> ExportRow \<Rightarrow> bool" where
  "winsOver r r' =
     (created_at r' < created_at r \<or> (created_at r' = created_at r \<and> type_rank r' \<le> type_rank r))"

text \<open>
  A concrete store for the instances below: the post \<open>q\<close> of \<open>b\<close> is a reply in a thread of the
  publisher \<open>news\<close> and quotes a post of \<open>c\<close>, so the window holds a quote row and a comment row
  under the one event URI \<open>q\<close>, created at the same instant.
\<close>

definition collisionDatabase :: "Subscriber list \<Rightarrow> Database" where
  "collisionDatabase subs =
     \<lparr> post_tbl =
         [(mkPost ''at://b/app.bsky.feed.post/q'' ''b'' ''2026-01-19T10:00:00.000Z'')
            \<lparr> rootUri := ''at://news/app.bsky.feed.post/1'' \<rparr>],
       engagement_tbl =
         [\<lparr> e_uri = ''at://b/app.bsky.feed.post/q'', e_cid = ''c'',
            subjectUri = ''at://c/app.bsky.feed.post/9'', subjectCid = ''c'', e_type = 3,
            e_indexedAt = ''2026-01-19T10:00:01.000Z'',
            e_createdAt = ''2026-01-19T10:00:00.000Z'', e_author = ''b'' \<rparr>],
       follows_tbl = [],
       subscriber_tbl = subs \<rparr>"

definition dayFilters :: EngagementFilters where
  "dayFilters =
     \<lparr> flt_since = ''2026-01-19T00:00:00.000Z'', flt_until = ''2026-01-20T00:00:00.000Z'',
       flt_scope = ScopeUnion, flt_limit = 1000, flt_types = [Like, Repost, Comment, Quote],
       flt_subscriberDid = None, flt_includeOtherSubscriberActivity = False \<rparr>"

definition quoteExportRow :: ExportRow where
  "quoteExportRow =
     \<lparr> x_type = Quote, event_uri = ''at://b/app.bsky.feed.post/q'',
       subject_uri = ''at://c/app.bsky.feed.post/9'', author_did = ''b'',
       created_at = ''2026-01-19T10:00:00.000Z'', is_publisher_target = False,
       is_subscriber_actor = True, type_rank = 4 \<rparr>"

definition commentExportRow :: "bool \<Rightarrow> ExportRow" where
  "commentExportRow sub =
     \<lparr> x_type = Comment, event_uri = ''at://b/app.bsky.feed.post/q'',
       subject_uri = ''at://news/app.bsky.feed.post/1'', author_did = ''b'',
       created_at = ''2026-01-19T10:00:00.000Z'', is_publisher_target = True,
       is_subscriber_actor = sub, type_rank = 3 \<rparr>"

section \<open>Validation of an export request\<close>


datatype HeaderValue = HUndefined | HString string | HArray "string list"




























section \<open>Properties of the gates\<close>












section \<open>Properties of the feed builder\<close>

lemma mergeLoop_Nil_Nil: "mergeLoop [] [] = []"
  by (simp add: mergeLoop.simps)

lemma mergeLoop_Nil_left: "mergeLoop [] os = map skeleton os"
proof (induction os rule: induct_list012)
  case 1
  show ?case by (simp add: mergeLoop.simps)
next
  case (2 x)
  show ?case by (simp add: mergeLoop.simps)
next
  case (3 x y zs)
  then show ?case by (subst mergeLoop.simps) simp
qed

lemma mergeLoop_Nil_right: "mergeLoop ps [] = map skeleton ps"
proof (induction ps)
  case Nil
  show ?case by (simp add: mergeLoop.simps)
next
  case (Cons p ps)
  then show ?case by (subst mergeLoop.simps) simp
qed

lemma mergeLoop_round:
  "mergeLoop (p # ps) (o1 # o2 # os) = skeleton p # skeleton o1 # skeleton o2 # mergeLoop ps os"
  by (subst mergeLoop.simps) simp

lemma mergeLoop_last_single:
  "mergeLoop (p # ps) [o1] = skeleton p # skeleton o1 # map skeleton ps"
  by (subst mergeLoop.simps) (simp add: mergeLoop_Nil_right)

lemma map_upt_shift: "map f [0..<Suc k] = f 0 # map (\<lambda>i. f (Suc i)) [0..<k]"
  by (simp add: upt_rec [of 0] map_Suc_upt [symmetric] del: upt_Suc)

lemma list012_cases:
  obtains (Nil0) "os = []" | (One) x where "os = [x]" | (Two) x y zs where "os = x # y # zs"
proof (cases os)
  case Nil
  then show ?thesis by (rule Nil0)
next
  case (Cons x xs)
  then show ?thesis by (cases xs) (auto intro: One Two)
qed

lemma mergeLoop_rounds:
  "mergeLoop ps os =
     concat (map (roundOf ps os) [0..<fullRounds ps os])
       @ map skeleton (drop (fullRounds ps os) ps)
       @ map skeleton (drop (2 * fullRounds ps os) os)"
proof (induction ps arbitrary: os)
  case Nil
  show ?case by (simp add: fullRounds_def mergeLoop_Nil_left)
next
  case (Cons p ps)
  show ?case
  proof (cases os rule: list012_cases)
    case Nil0
    then show ?thesis by (simp add: fullRounds_def mergeLoop_Nil_right)
  next
    case (One x)
    then show ?thesis
      by (simp add: fullRounds_def mergeLoop_last_single roundOf_def)
  next
    case (Two x y zs)
    have fr: "fullRounds (p # ps) (x # y # zs) = Suc (fullRounds ps zs)"
      by (simp add: fullRounds_def)
    have r0: "roundOf (p # ps) (x # y # zs) 0 = [skeleton p, skeleton x, skeleton y]"
      by (simp add: roundOf_def)
    have rS: "roundOf (p # ps) (x # y # zs) (Suc i) = roundOf ps zs i" for i
      by (simp add: roundOf_def)
    show ?thesis
      unfolding Two fr map_upt_shift mergeLoop_round
      by (simp add: r0 rS Cons.IH [of zs])
  qed
qed

lemma buildFeed_Inr:
  assumes "pubQ db tlim fs (cursorOffsetOf params) (Num (qp_limit params div 3)) = Inr ps"
    and "folQ db tlim fs (cursorOffsetOf params) (jsMul (Num (qp_limit params div 3)) (Num 2)) = Inr os"
  shows "buildFeed db tlim fs params pubQ folQ =
     Inr \<lparr> out_cursor =
             (if length ps + length os > 0
              then Some (toStringNum (jsAdd (cursorOffsetOf params)
                      (jsMul (Num (qp_limit params div 3)) (Num 2))))
              else None),
           out_feed = mergeLoop ps os \<rparr>"
  using assms by (simp add: buildFeed_def Let_def)

lemma pagedQuery_length:
  "pagedQuery rows off (Num l) = Inr ps \<Longrightarrow> length ps \<le> nat l"
  by (auto simp: pagedQuery_def split: jsnum.splits if_splits)

lemma list3: "length ps = 3 \<Longrightarrow> ps = [ps ! 0, ps ! 1, ps ! 2]"
proof -
  assume l: "length ps = 3"
  have "ps = map ((!) ps) [0..<length ps]" by (simp add: map_nth)
  also have "[0..<length ps] = [0, 1, 2]" unfolding l by (simp add: upt_rec)
  finally show ?thesis by simp
qed

lemma list6: "length os = 6 \<Longrightarrow> os = [os ! 0, os ! 1, os ! 2, os ! 3, os ! 4, os ! 5]"
proof -
  assume l: "length os = 6"
  have "os = map ((!) os) [0..<length os]" by (simp add: map_nth)
  also have "[0..<length os] = [0, 1, 2, 3, 4, 5]" unfolding l by (simp add: upt_rec)
  finally show ?thesis by simp
qed

text \<open>
  Claim C2. For a request with limit 9 whose publisher sub-query returns at least 3 rows and
  whose network sub-query returns at least 6 (both paged as the builders under algos/ are),
  the feed is publisher, network, network, three times over: exactly 3 publisher rows and 6
  network rows, each stream in its own order. For any two sub-query results the feed is the
  sequence of full rounds (one publisher row, then up to two network rows) followed by what
  is left of the stream that was not exhausted, in its order; at most one stream has rows
  left.
\<close>

theorem buildFeed_interleave:
  "(qp_limit params = 9 \<and>
    pagedQuery cp (cursorOffsetOf params) (Num 3) = Inr ps \<and>
    pagedQuery cn (cursorOffsetOf params) (Num 6) = Inr os \<and>
    3 \<le> length ps \<and> 6 \<le> length os
    \<longrightarrow> (\<exists>out. buildFeed db tlim fs params (\<lambda>d t f. pagedQuery cp) (\<lambda>d t f. pagedQuery cn) = Inr out
          \<and> out_feed out = map skeleton
               [ps ! 0, os ! 0, os ! 1, ps ! 1, os ! 2, os ! 3, ps ! 2, os ! 4, os ! 5]
          \<and> length ps = 3 \<and> length os = 6))
   \<and> (pubQ db tlim fs (cursorOffsetOf params) (Num (qp_limit params div 3)) = Inr ps' \<and>
      folQ db tlim fs (cursorOffsetOf params) (jsMul (Num (qp_limit params div 3)) (Num 2)) = Inr os'
    \<longrightarrow> (\<exists>out. buildFeed db tlim fs params pubQ folQ = Inr out
          \<and> out_feed out =
              concat (map (roundOf ps' os') [0..<fullRounds ps' os'])
                @ map skeleton (drop (fullRounds ps' os') ps')
                @ map skeleton (drop (2 * fullRounds ps' os') os')
          \<and> (drop (fullRounds ps' os') ps' = [] \<or> drop (2 * fullRounds ps' os') os' = [])))"
proof (intro conjI impI)
  assume a: "qp_limit params = 9 \<and>
    pagedQuery cp (cursorOffsetOf params) (Num 3) = Inr ps \<and>
    pagedQuery cn (cursorOffsetOf params) (Num 6) = Inr os \<and>
    3 \<le> length ps \<and> 6 \<le> length os"
  then have lp: "length ps = 3" and lo: "length os = 6"
    using pagedQuery_length [of cp "cursorOffsetOf params" 3 ps]
      pagedQuery_length [of cn "cursorOffsetOf params" 6 os]
    by auto
  have bf: "buildFeed db tlim fs params (\<lambda>d t f. pagedQuery cp) (\<lambda>d t f. pagedQuery cn) =
      Inr \<lparr> out_cursor =
             (if length ps + length os > 0
              then Some (toStringNum (jsAdd (cursorOffsetOf params)
                      (jsMul (Num (qp_limit params div 3)) (Num 2))))
              else None),
           out_feed = mergeLoop ps os \<rparr>"
    by (rule buildFeed_Inr) (use a in \<open>simp_all add: jsMul_def\<close>)
  have "mergeLoop ps os = map skeleton
        [ps ! 0, os ! 0, os ! 1, ps ! 1, os ! 2, os ! 3, ps ! 2, os ! 4, os ! 5]"
    by (subst list3 [OF lp], subst list6 [OF lo])
      (simp add: mergeLoop_round mergeLoop_Nil_Nil)
  with bf lp lo
  show "\<exists>out. buildFeed db tlim fs params (\<lambda>d t f. pagedQuery cp) (\<lambda>d t f. pagedQuery cn) = Inr out
          \<and> out_feed out = map skeleton
               [ps ! 0, os ! 0, os ! 1, ps ! 1, os ! 2, os ! 3, ps ! 2, os ! 4, os ! 5]
          \<and> length ps = 3 \<and> length os = 6"
    by simp
next
  assume b: "pubQ db tlim fs (cursorOffsetOf params) (Num (qp_limit params div 3)) = Inr ps' \<and>
      folQ db tlim fs (cursorOffsetOf params) (jsMul (Num (qp_limit params div 3)) (Num 2)) = Inr os'"
  have tails: "drop (fullRounds ps' os') ps' = [] \<or> drop (2 * fullRounds ps' os') os' = []"
    by (auto simp: fullRounds_def min_def)
  from b show "\<exists>out. buildFeed db tlim fs params pubQ folQ = Inr out
          \<and> out_feed out =
              concat (map (roundOf ps' os') [0..<fullRounds ps' os'])
                @ map skeleton (drop (fullRounds ps' os') ps')
                @ map skeleton (drop (2 * fullRounds ps' os') os')
          \<and> (drop (fullRounds ps' os') ps' = [] \<or> drop (2 * fullRounds ps' os') os' = [])"
    using tails by (simp add: buildFeed_Inr mergeLoop_rounds [symmetric])
qed

lemma digit_char:
  assumes "d < 10"
  shows "isDigit (''0123456789'' ! d)" and "digitVal (''0123456789'' ! d) = d"
    and "\<not> isWhiteSpace (''0123456789'' ! d)"
    and "''0123456789'' ! d \<noteq> CHR ''-''" and "''0123456789'' ! d \<noteq> CHR ''+''"
proof -
  from assms have "d \<in> {0, 1, 2, 3, 4, 5, 6, 7, 8, 9}" by auto
  then show "isDigit (''0123456789'' ! d)" and "digitVal (''0123456789'' ! d) = d"
    and "\<not> isWhiteSpace (''0123456789'' ! d)"
    and "''0123456789'' ! d \<noteq> CHR ''-''" and "''0123456789'' ! d \<noteq> CHR ''+''"
    by (auto simp: isDigit_def digitVal_def isWhiteSpace_def)
qed

lemma digitsValue_snoc: "digitsValue (ds @ [c]) = 10 * digitsValue ds + digitVal c"
  by (simp add: digitsValue_def)

lemma showNat_props:
  "showNat n \<noteq> [] \<and> (\<forall>c \<in> set (showNat n). isDigit c) \<and> digitsValue (showNat n) = n
   \<and> \<not> isWhiteSpace (hd (showNat n)) \<and> hd (showNat n) \<noteq> CHR ''-'' \<and> hd (showNat n) \<noteq> CHR ''+''"
proof (induction n rule: showNat.induct)
  case (1 n)
  show ?case
  proof (cases "n < 10")
    case True
    then show ?thesis
      by (subst (1 2 3 4 5 6) showNat.simps) (simp add: digit_char digitsValue_def)
  next
    case False
    have m: "n mod 10 < 10" by simp
    from False 1 have ih: "showNat (n div 10) \<noteq> []"
      "\<forall>c \<in> set (showNat (n div 10)). isDigit c"
      "digitsValue (showNat (n div 10)) = n div 10"
      "\<not> isWhiteSpace (hd (showNat (n div 10)))"
      "hd (showNat (n div 10)) \<noteq> CHR ''-''" "hd (showNat (n div 10)) \<noteq> CHR ''+''"
      by simp_all
    have eq: "showNat n = showNat (n div 10) @ [''0123456789'' ! (n mod 10)]"
      using False by (subst showNat.simps) simp
    show ?thesis
      unfolding eq using ih digit_char [OF m]
      by (simp add: digitsValue_snoc)
  qed
qed

lemma parseInt10_showNat: "parseInt10 (showNat n) = Num (int n)"
proof -
  note p = showNat_props [of n]
  from p have dw: "dropWhile isWhiteSpace (showNat n) = showNat n"
    by (cases "showNat n") auto
  from p have tw: "takeWhile isDigit (showNat n) = showNat n"
    by (simp add: takeWhile_eq_all_conv)
  show ?thesis
    using p by (simp add: parseInt10_def dw tw Let_def)
qed

lemma parseInt10_toStringNum: "parseInt10 (toStringNum (Num i)) = Num i"
proof (cases "i < 0")
  case False
  then show ?thesis by (simp add: toStringNum_def parseInt10_showNat)
next
  case True
  note p = showNat_props [of "nat (- i)"]
  from p have tw: "takeWhile isDigit (showNat (nat (- i))) = showNat (nat (- i))"
    by (simp add: takeWhile_eq_all_conv)
  have nw: "\<not> isWhiteSpace CHR ''-''" by (simp add: isWhiteSpace_def)
  show ?thesis
    using True p by (simp add: toStringNum_def parseInt10_def nw tw Let_def)
qed

lemma toStringNum_nonempty: "toStringNum x \<noteq> []"
  using showNat_props by (cases x) (auto simp: toStringNum_def)

text \<open>
  Claim C8, as amended. \<^verbatim>\<open>buildFeed\<close> first replaces the requested limit by a third of it
  (\<^verbatim>\<open>Math.floor(params.limit / 3)\<close>), so when the two sub-queries return at least one row
  in total the cursor is the decimal string of the previous offset plus twice that third,
  \<open>offset + 2 * (limit div 3)\<close>, which the next request parses back to that number; when
  both sub-queries return nothing there is no cursor.
\<close>

theorem buildFeed_cursor:
  "pubQ db tlim fs (cursorOffsetOf params) (Num (qp_limit params div 3)) = Inr ps \<and>
   folQ db tlim fs (cursorOffsetOf params) (jsMul (Num (qp_limit params div 3)) (Num 2)) = Inr os
   \<longrightarrow> (\<exists>out. buildFeed db tlim fs params pubQ folQ = Inr out \<and>
          (ps = [] \<and> os = [] \<longrightarrow> out_cursor out = None) \<and>
          (length ps + length os > 0 \<longrightarrow>
             out_cursor out =
               Some (toStringNum (jsAdd (cursorOffsetOf params) (Num (2 * (qp_limit params div 3))))) \<and>
             (\<forall>ofs. cursorOffsetOf params = Num ofs \<longrightarrow>
                out_cursor out = Some (toStringNum (Num (ofs + 2 * (qp_limit params div 3)))) \<and>
                cursorOffsetOf (params \<lparr> qp_cursor := out_cursor out \<rparr>) =
                  Num (ofs + 2 * (qp_limit params div 3)))))"
proof
  assume a: "pubQ db tlim fs (cursorOffsetOf params) (Num (qp_limit params div 3)) = Inr ps \<and>
   folQ db tlim fs (cursorOffsetOf params) (jsMul (Num (qp_limit params div 3)) (Num 2)) = Inr os"
  have m: "jsMul (Num (qp_limit params div 3)) (Num 2) = Num (2 * (qp_limit params div 3))"
    by (simp add: jsMul_def)
  have rt: "cursorOffsetOf (params \<lparr> qp_cursor := Some (toStringNum (Num k)) \<rparr>) = Num k" for k
    by (simp add: cursorOffsetOf_def toStringNum_nonempty parseInt10_toStringNum)
  from a have "buildFeed db tlim fs params pubQ folQ =
     Inr \<lparr> out_cursor =
             (if length ps + length os > 0
              then Some (toStringNum (jsAdd (cursorOffsetOf params)
                      (jsMul (Num (qp_limit params div 3)) (Num 2))))
              else None),
           out_feed = mergeLoop ps os \<rparr>"
    by (simp add: buildFeed_Inr)
  then show "\<exists>out. buildFeed db tlim fs params pubQ folQ = Inr out \<and>
          (ps = [] \<and> os = [] \<longrightarrow> out_cursor out = None) \<and>
          (length ps + length os > 0 \<longrightarrow>
             out_cursor out =
               Some (toStringNum (jsAdd (cursorOffsetOf params) (Num (2 * (qp_limit params div 3))))) \<and>
             (\<forall>ofs. cursorOffsetOf params = Num ofs \<longrightarrow>
                out_cursor out = Some (toStringNum (Num (ofs + 2 * (qp_limit params div 3)))) \<and>
                cursorOffsetOf (params \<lparr> qp_cursor := out_cursor out \<rparr>) =
                  Num (ofs + 2 * (qp_limit params div 3))))"
    unfolding m by (auto simp: jsAdd_def rt)
qed

theorem buildFeed_interleave_witness:
  "(\<exists>out. buildFeed () [] [] \<lparr> qp_limit = 9, qp_cursor = None \<rparr>
            (\<lambda>d t f. pagedQuery examplePublisherRows) (\<lambda>d t f. pagedQuery exampleNetworkRows) = Inr out
      \<and> map sk_post (out_feed out) =
          [''at://pub/1'', ''at://net/1'', ''at://net/2'',
           ''at://pub/2'', ''at://net/3'', ''at://net/4'',
           ''at://pub/3'', ''at://net/5'', ''at://net/6''])
   \<and> (\<exists>out. buildFeed () [] [] \<lparr> qp_limit = 9, qp_cursor = Some ''3'' \<rparr>
            (\<lambda>d t f. pagedQuery examplePublisherRows) (\<lambda>d t f. pagedQuery exampleNetworkRows) = Inr out
      \<and> map sk_post (out_feed out) =
          [''at://pub/4'', ''at://net/4'', ''at://net/5'', ''at://net/6'', ''at://net/7''])"
proof -
  let ?p0 = "\<lparr> qp_limit = 9, qp_cursor = None \<rparr>"
  let ?p3 = "\<lparr> qp_limit = 9, qp_cursor = Some ''3'' \<rparr>"
  let ?pq = "\<lambda>(d::unit) (t::string) (f::string list). pagedQuery examplePublisherRows"
  let ?nq = "\<lambda>(d::unit) (t::string) (f::string list). pagedQuery exampleNetworkRows"
  have c0: "cursorOffsetOf ?p0 = Num 0"
    by (simp add: cursorOffsetOf_def)
  have c3: "cursorOffsetOf ?p3 = Num 3"
    by (simp add: cursorOffsetOf_def parseInt10_def isWhiteSpace_def isDigit_def
          digitsValue_def digitVal_def Let_def)
  have q1: "pagedQuery examplePublisherRows (Num 0) (Num 3) = Inr (take 3 examplePublisherRows)"
    and q2: "pagedQuery exampleNetworkRows (Num 0) (Num 6) = Inr (take 6 exampleNetworkRows)"
    and q3: "pagedQuery examplePublisherRows (Num 3) (Num 3) = Inr (drop 3 examplePublisherRows)"
    and q4: "pagedQuery exampleNetworkRows (Num 3) (Num 6) = Inr (drop 3 exampleNetworkRows)"
    by (simp_all add: pagedQuery_def examplePublisherRows_def exampleNetworkRows_def)
  have first: "\<exists>out. buildFeed () [] [] ?p0 ?pq ?nq = Inr out
      \<and> out_feed out = map skeleton
           [take 3 examplePublisherRows ! 0, take 6 exampleNetworkRows ! 0,
            take 6 exampleNetworkRows ! 1, take 3 examplePublisherRows ! 1,
            take 6 exampleNetworkRows ! 2, take 6 exampleNetworkRows ! 3,
            take 3 examplePublisherRows ! 2, take 6 exampleNetworkRows ! 4,
            take 6 exampleNetworkRows ! 5]
      \<and> length (take 3 examplePublisherRows) = 3 \<and> length (take 6 exampleNetworkRows) = 6"
    using buildFeed_interleave [of ?p0 examplePublisherRows "take 3 examplePublisherRows"
        exampleNetworkRows "take 6 exampleNetworkRows" "()" "[]" "[]"]
    by (simp add: c0 q1 q2) (simp add: examplePublisherRows_def exampleNetworkRows_def)
  have second: "\<exists>out. buildFeed () [] [] ?p3 ?pq ?nq = Inr out
      \<and> out_feed out =
          concat (map (roundOf (drop 3 examplePublisherRows) (drop 3 exampleNetworkRows))
                    [0..<fullRounds (drop 3 examplePublisherRows) (drop 3 exampleNetworkRows)])
            @ map skeleton (drop (fullRounds (drop 3 examplePublisherRows) (drop 3 exampleNetworkRows))
                 (drop 3 examplePublisherRows))
            @ map skeleton (drop (2 * fullRounds (drop 3 examplePublisherRows) (drop 3 exampleNetworkRows))
                 (drop 3 exampleNetworkRows))
      \<and> (drop (fullRounds (drop 3 examplePublisherRows) (drop 3 exampleNetworkRows))
              (drop 3 examplePublisherRows) = []
         \<or> drop (2 * fullRounds (drop 3 examplePublisherRows) (drop 3 exampleNetworkRows))
              (drop 3 exampleNetworkRows) = [])"
    using buildFeed_interleave [of ?p3 _ _ _ _ "()" "[]" "[]" ?pq "drop 3 examplePublisherRows"
        ?nq "drop 3 exampleNetworkRows"]
    by (simp add: c3 q3 q4 jsMul_def)
  have fr: "fullRounds (drop 3 examplePublisherRows) (drop 3 exampleNetworkRows) = 1"
    by (simp add: fullRounds_def examplePublisherRows_def exampleNetworkRows_def)
  from first obtain o1 where o1: "buildFeed () [] [] ?p0 ?pq ?nq = Inr o1"
    "map sk_post (out_feed o1) =
          [''at://pub/1'', ''at://net/1'', ''at://net/2'',
           ''at://pub/2'', ''at://net/3'', ''at://net/4'',
           ''at://pub/3'', ''at://net/5'', ''at://net/6'']"
    by (auto simp: examplePublisherRows_def exampleNetworkRows_def skeleton_def mkPost_def)
  from second obtain o2 where o2: "buildFeed () [] [] ?p3 ?pq ?nq = Inr o2"
    "map sk_post (out_feed o2) =
          [''at://pub/4'', ''at://net/4'', ''at://net/5'', ''at://net/6'', ''at://net/7'']"
    unfolding fr
    by (auto simp: examplePublisherRows_def exampleNetworkRows_def skeleton_def mkPost_def
          roundOf_def)
  from o1 o2 show ?thesis by simp
qed

text \<open>
  With limit 9, no cursor and non-empty sub-query results the cursor is \<open>''6''\<close>, not the
  previous offset advanced by twice the requested limit, \<open>''18''\<close>.
\<close>

theorem buildFeed_cursor_counterexample:
  "buildFeed () [] [] \<lparr> qp_limit = 9, qp_cursor = None \<rparr> publisherPage networkPage
    = Inr \<lparr> out_cursor = Some ''6'',
            out_feed =
              [\<lparr> sk_post = ''at://pub/1'' \<rparr>, \<lparr> sk_post = ''at://net/1'' \<rparr>,
               \<lparr> sk_post = ''at://net/2'' \<rparr>, \<lparr> sk_post = ''at://pub/2'' \<rparr>,
               \<lparr> sk_post = ''at://net/3'' \<rparr>, \<lparr> sk_post = ''at://net/4'' \<rparr>,
               \<lparr> sk_post = ''at://pub/3'' \<rparr>, \<lparr> sk_post = ''at://net/5'' \<rparr>,
               \<lparr> sk_post = ''at://net/6'' \<rparr>] \<rparr>
   \<and> toStringNum (jsAdd (Num 0) (jsMul (Num 2) (Num 9))) = ''18''
   \<and> Some ''6'' \<noteq> Some ''18''"
  by (simp add: buildFeed_def cursorOffsetOf_def publisherPage_def networkPage_def
        pagedQuery_def jsMul_def jsAdd_def
        toStringNum_def showNat.simps examplePublisherRows_def exampleNetworkRows_def
        mergeLoop.simps skeleton_def mkPost_def Let_def)

theorem buildFeed_cursor_witness:
  "\<exists>out. buildFeed () [] [] \<lparr> qp_limit = 9, qp_cursor = Some ''3'' \<rparr>
            (\<lambda>d t f. pagedQuery examplePublisherRows) (\<lambda>d t f. pagedQuery exampleNetworkRows) = Inr out
      \<and> out_cursor out = Some ''9''
      \<and> cursorOffsetOf \<lparr> qp_limit = 9, qp_cursor = out_cursor out \<rparr> = Num 9"
proof -
  let ?p3 = "\<lparr> qp_limit = 9, qp_cursor = Some ''3'' \<rparr>"
  let ?pq = "\<lambda>(d::unit) (t::string) (f::string list). pagedQuery examplePublisherRows"
  let ?nq = "\<lambda>(d::unit) (t::string) (f::string list). pagedQuery exampleNetworkRows"
  have c3: "cursorOffsetOf ?p3 = Num 3"
    by (simp add: cursorOffsetOf_def parseInt10_def isWhiteSpace_def isDigit_def
          digitsValue_def digitVal_def Let_def)
  have q3: "pagedQuery examplePublisherRows (Num 3) (Num 3) = Inr (drop 3 examplePublisherRows)"
    and q4: "pagedQuery exampleNetworkRows (Num 3) (Num 6) = Inr (drop 3 exampleNetworkRows)"
    by (simp_all add: pagedQuery_def examplePublisherRows_def exampleNetworkRows_def)
  have l: "0 < length (drop 3 examplePublisherRows) + length (drop 3 exampleNetworkRows)"
    by (simp add: examplePublisherRows_def)
  have s: "toStringNum (Num 9) = ''9''"
    by (simp add: toStringNum_def showNat.simps)
  from buildFeed_cursor [of ?pq "()" "[]" "[]" ?p3 "drop 3 examplePublisherRows" ?nq
      "drop 3 exampleNetworkRows"]
  obtain out where "buildFeed () [] [] ?p3 ?pq ?nq = Inr out"
    and "out_cursor out = Some (toStringNum (Num (3 + 2 * (9 div 3))))"
    and "cursorOffsetOf (?p3 \<lparr> qp_cursor := out_cursor out \<rparr>) = Num (3 + 2 * (9 div 3))"
    using c3 q3 q4 l by (auto simp: jsMul_def)
  then show ?thesis by (simp add: s)
qed

section \<open>Properties of the event projector\<close>










section \<open>Properties of the retention trimmer\<close>








text \<open>With a batch size of zero no batch ever deletes fewer rows than the batch size, and
  the loop does not end; a negative batch size is rejected by the first statement.\<close>

lemma retentionLoop_Some_nonzero:
  assumes "retentionLoop ts c b tot tbl = Some y"
  shows "b \<noteq> 0"
  using assms
  by (rule retentionLoop.raw_induct [where P = "\<lambda>ts c b tot tbl y. b \<noteq> 0", rotated])
    (auto split: if_splits prod.splits)

lemma retentionLoop_zero_diverges: "retentionLoop ts c 0 tot tbl = None"
  using retentionLoop_Some_nonzero [of ts c 0 tot tbl]
  by (cases "retentionLoop ts c 0 tot tbl") auto







theorem runRetentionOnce_zero_batch:
  "runRetentionOnce (smallBatchConfig \<lparr> deleteBatchSize := 0 \<rparr>) fixedClock agedDatabase = None"
  by (simp add: runRetentionOnce_def smallBatchConfig_def retentionLoop_zero_diverges Let_def)

section \<open>Properties of the engagement aggregator\<close>

lemma concat_chunksOf: "0 < n \<Longrightarrow> concat (chunksOf n items) = items"
proof (induction n items rule: chunksOf.induct)
  case (1 n items)
  show ?case
  proof (cases "items = []")
    case True
    then show ?thesis by (simp add: chunksOf.simps)
  next
    case False
    with 1 have "concat (chunksOf n (drop n items)) = drop n items" by simp
    with False 1(2) show ?thesis
      by (subst chunksOf.simps) simp
  qed
qed

lemma chunksOf_bounded: "ch \<in> set (chunksOf n items) \<Longrightarrow> length ch \<le> n \<and> ch \<noteq> []"
proof (induction n items rule: chunksOf.induct)
  case (1 n items)
  show ?case
  proof (cases "items = [] \<or> n = 0")
    case True
    with 1(2) show ?thesis by (simp add: chunksOf.simps)
  next
    case False
    with 1(2) have "ch = take n items \<or> ch \<in> set (chunksOf n (drop n items))"
      by (subst (asm) chunksOf.simps) auto
    with False 1(1) show ?thesis by auto
  qed
qed

lemma countQuery_entries:
  "(u, v) \<in> set (countQuery key cond tbl chunk) \<longleftrightarrow>
     u \<in> set chunk \<and> 0 < countOn key cond tbl u \<and> v = countOn key cond tbl u"
proof -
  let ?rows = "filter (\<lambda>r. key r \<in> set chunk \<and> cond r) tbl"
  have len: "int (length (filter (\<lambda>r. key r = u) ?rows)) = countOn key cond tbl u"
    if "u \<in> set chunk"
  proof -
    have "filter (\<lambda>r. key r = u) ?rows = filter (\<lambda>r. key r = u \<and> cond r) tbl"
      unfolding filter_filter using that by (intro filter_cong) auto
    then show ?thesis by (simp add: countOn_def)
  qed
  have pos: "0 < countOn key cond tbl u \<longleftrightarrow> (\<exists>r \<in> set tbl. key r = u \<and> cond r)"
    by (auto simp: countOn_def filter_empty_conv)
  have keys: "u \<in> key ` set ?rows \<longleftrightarrow> u \<in> set chunk \<and> (\<exists>r \<in> set tbl. key r = u \<and> cond r)"
    by auto
  have "(u, v) \<in> set (countQuery key cond tbl chunk) \<longleftrightarrow>
      u \<in> key ` set ?rows \<and> v = int (length (filter (\<lambda>r. key r = u) ?rows))"
    unfolding countQuery_def Let_def by (simp add: image_iff)
  also have "\<dots> \<longleftrightarrow> u \<in> set chunk \<and> 0 < countOn key cond tbl u \<and> v = countOn key cond tbl u"
    unfolding keys pos using len by auto
  finally show ?thesis .
qed

lemma countQuery_keys:
  "u \<in> fst ` set (countQuery key cond tbl chunk) \<longleftrightarrow>
     u \<in> set chunk \<and> 0 < countOn key cond tbl u"
proof -
  have "u \<in> fst ` set (countQuery key cond tbl chunk) \<longleftrightarrow>
      (\<exists>v. (u, v) \<in> set (countQuery key cond tbl chunk))"
    by force
  then show ?thesis by (simp add: countQuery_entries)
qed

lemma jsMapOf_functional:
  assumes "\<And>u v. (u, v) \<in> set es \<Longrightarrow> v = f u"
  shows "jsMapOf es u = (if u \<in> fst ` set es then Some (f u) else None)"
proof (cases "map_of (rev es) u")
  case None
  then show ?thesis
    by (simp add: jsMapOf_def map_of_eq_None_iff)
next
  case (Some v)
  then have "(u, v) \<in> set es"
    using map_of_SomeD by fastforce
  with assms Some show ?thesis
    by (force simp: jsMapOf_def)
qed

lemma jsMapOf_append:
  "jsMapOf (xs @ ys) u = (case jsMapOf ys u of Some v \<Rightarrow> Some v | None \<Rightarrow> jsMapOf xs u)"
  by (simp add: jsMapOf_def map_add_def split: option.splits)

lemma jsMapOf_countQuery:
  "jsMapOf (countQuery key cond tbl items) u =
     (if u \<in> set items \<and> 0 < countOn key cond tbl u then Some (countOn key cond tbl u) else None)"
proof -
  have "jsMapOf (countQuery key cond tbl items) u =
      (if u \<in> fst ` set (countQuery key cond tbl items) then Some (countOn key cond tbl u) else None)"
    by (rule jsMapOf_functional) (simp add: countQuery_entries)
  then show ?thesis by (simp add: countQuery_keys)
qed

lemma jsMapOf_execInChunksWith:
  assumes "0 < n"
  shows "jsMapOf (execInChunksWith n items (countQuery key cond tbl)) u =
     (if u \<in> set items \<and> 0 < countOn key cond tbl u then Some (countOn key cond tbl u) else None)"
proof -
  let ?es = "execInChunksWith n items (countQuery key cond tbl)"
  have mem: "(w, v) \<in> set ?es \<longleftrightarrow>
      w \<in> set items \<and> 0 < countOn key cond tbl w \<and> v = countOn key cond tbl w" for w v
  proof -
    have "(w, v) \<in> set ?es \<longleftrightarrow>
        (\<exists>ch \<in> set (chunksOf n items). (w, v) \<in> set (countQuery key cond tbl ch))"
      by (auto simp: execInChunksWith_def)
    also have "\<dots> \<longleftrightarrow> (\<exists>ch \<in> set (chunksOf n items). w \<in> set ch)
        \<and> 0 < countOn key cond tbl w \<and> v = countOn key cond tbl w"
      by (auto simp: countQuery_entries)
    also have "(\<exists>ch \<in> set (chunksOf n items). w \<in> set ch) \<longleftrightarrow> w \<in> set (concat (chunksOf n items))"
      by auto
    also have "concat (chunksOf n items) = items"
      using assms by (rule concat_chunksOf)
    finally show ?thesis .
  qed
  have "jsMapOf ?es u = (if u \<in> fst ` set ?es then Some (countOn key cond tbl u) else None)"
    by (rule jsMapOf_functional) (simp add: mem)
  moreover have "u \<in> fst ` set ?es \<longleftrightarrow> u \<in> set items \<and> 0 < countOn key cond tbl u"
  proof -
    have "u \<in> fst ` set ?es \<longleftrightarrow> (\<exists>v. (u, v) \<in> set ?es)"
      by force
    then show ?thesis by (simp add: mem)
  qed
  ultimately show ?thesis by simp
qed

lemma jsMapOf_chunked_eq:
  "0 < n \<Longrightarrow>
   jsMapOf (execInChunksWith n items (countQuery key cond tbl)) =
     jsMapOf (countQuery key cond tbl items)"
  by (rule ext) (simp add: jsMapOf_execInChunksWith jsMapOf_countQuery)

lemma find_eq: "find (\<lambda>w. u = w) xs = (if u \<in> set xs then Some u else None)"
  by (induction xs) auto

lemma caseWhen_mem: "u \<in> set batchUris \<Longrightarrow> caseWhen batchUris m u old = Some (getOrZero m u)"
  by (simp add: caseWhen_def find_eq)

lemma updateBatch_pointwise:
  "updateBatch L R C tbl batchUris =
     map (\<lambda>p. if uri p \<in> set batchUris then recount L R C p else p) tbl"
  by (simp add: updateBatch_def recount_def caseWhen_mem cong: if_cong)

lemma uri_recount: "uri (recount L R C p) = uri p"
  by (simp add: recount_def)

lemma recount_idem: "recount L R C (recount L R C p) = recount L R C p"
  by (simp add: recount_def)

lemma foldl_updateBatch:
  "foldl (updateBatch L R C) tbl chs =
     map (\<lambda>p. if uri p \<in> set (concat chs) then recount L R C p else p) tbl"
proof (induction chs arbitrary: tbl)
  case Nil
  show ?case by simp
next
  case (Cons ch chs)
  have "foldl (updateBatch L R C) tbl (ch # chs) =
      foldl (updateBatch L R C) (updateBatch L R C tbl ch) chs"
    by simp
  also have "\<dots> = map (\<lambda>p. if uri p \<in> set (concat chs) then recount L R C p else p)
      (updateBatch L R C tbl ch)"
    by (rule Cons.IH)
  also have "\<dots> = map (\<lambda>p. if uri p \<in> set (concat (ch # chs)) then recount L R C p else p) tbl"
    unfolding updateBatch_pointwise map_map
    by (rule map_cong) (auto simp: uri_recount recount_idem)
  finally show ?case .
qed

lemma updateBatch_chunked:
  "0 < b \<Longrightarrow> foldl (updateBatch L R C) tbl (chunksOf b uris) = updateBatch L R C tbl uris"
  by (simp add: foldl_updateBatch updateBatch_pointwise concat_chunksOf)

lemma jsMapOf_chunked_pair:
  assumes "0 < c"
  shows "jsMapOf ((if P then execInChunksWith c xs (countQuery k1 c1 t1) else [])
                  @ (if Q then execInChunksWith c ys (countQuery k2 c2 t2) else [])) =
         jsMapOf ((if P then countQuery k1 c1 t1 xs else [])
                  @ (if Q then countQuery k2 c2 t2 ys else []))"
  by (rule ext) (simp add: jsMapOf_append jsMapOf_chunked_eq [OF assms] cong: option.case_cong)

lemma updateEngagementWith_unchunked:
  assumes "0 < c" and "0 < b"
  shows "updateEngagementWith c b newsbotDids timeLimit db =
     updateEngagementUnchunked newsbotDids timeLimit db"
  unfolding updateEngagementWith_def updateEngagementUnchunked_def Let_def
  by (simp only: jsMapOf_chunked_pair [OF assms(1)] updateBatch_chunked [OF assms(2)])

text \<open>
  Claim C7. The run with count queries over chunks of 50,000 URIs and updates over batches
  of 5,000 URIs leaves the same store as the reference run that issues each query and the
  update once over the whole list, so each map gives every URI the same count in both; the
  same holds for any positive chunk and batch sizes. The chunks are the consecutive slices
  of the list: none is longer than the chunk size, and together they are the list.
\<close>

theorem updateEngagement_chunked_equiv:
  "updateEngagement newsbotDids timeLimit db =
     updateEngagementUnchunked newsbotDids timeLimit db
   \<and> (0 < c \<and> 0 < b \<longrightarrow>
        updateEngagementWith c b newsbotDids timeLimit db =
          updateEngagementUnchunked newsbotDids timeLimit db)
   \<and> (0 < c \<longrightarrow>
        jsMapOf (execInChunksWith c items (countQuery key cond tbl)) u =
          jsMapOf (countQuery key cond tbl items) u)
   \<and> (0 < c \<longrightarrow> concat (chunksOf c items) = items)
   \<and> (ch \<in> set (chunksOf c items) \<longrightarrow> length ch \<le> c)"
proof (intro conjI impI)
  show "updateEngagement newsbotDids timeLimit db =
     updateEngagementUnchunked newsbotDids timeLimit db"
    unfolding updateEngagement_def
    by (rule updateEngagementWith_unchunked) (simp_all add: IN_CLAUSE_CHUNK_SIZE_def batchSize_def)
  show "updateEngagementWith c b newsbotDids timeLimit db =
          updateEngagementUnchunked newsbotDids timeLimit db" if "0 < c \<and> 0 < b"
    using that by (simp add: updateEngagementWith_unchunked)
  show "jsMapOf (execInChunksWith c items (countQuery key cond tbl)) u =
          jsMapOf (countQuery key cond tbl items) u" if "0 < c"
    using that by (simp add: jsMapOf_chunked_eq)
  show "concat (chunksOf c items) = items" if "0 < c"
    using that by (rule concat_chunksOf)
  show "length ch \<le> c" if "ch \<in> set (chunksOf c items)"
    using chunksOf_bounded [OF that] by simp
qed

lemma countOn_nonneg: "0 \<le> countOn key cond tbl u"
  by (simp add: countOn_def)

lemma jsMapOf_Nil: "jsMapOf [] u = None"
  by (simp add: jsMapOf_def)

lemma getOrZero_guarded:
  "getOrZero (jsMapOf (if G then countQuery key cond tbl items else [])) u =
     (if G \<and> u \<in> set items then countOn key cond tbl u else 0)"
proof (cases G)
  case False
  then show ?thesis by (simp add: getOrZero_def jsMapOf_Nil)
next
  case True
  then show ?thesis
    using countOn_nonneg [of key cond tbl u]
    by (simp add: getOrZero_def jsMapOf_countQuery)
qed

lemma jsMapOf_guarded_None:
  "u \<notin> set items \<Longrightarrow> jsMapOf (if G then countQuery key cond tbl items else []) u = None"
  by (cases G) (simp_all add: jsMapOf_countQuery jsMapOf_Nil)

lemma getOrZero_pair_right:
  assumes "u \<notin> set xs"
  shows "getOrZero (jsMapOf ((if P then countQuery k1 c1 t1 xs else [])
                              @ (if Q then countQuery k2 c2 t2 ys else []))) u =
         (if Q \<and> u \<in> set ys then countOn k2 c2 t2 u else 0)"
proof -
  let ?A = "if P then countQuery k1 c1 t1 xs else []"
  let ?B = "if Q then countQuery k2 c2 t2 ys else []"
  have l: "jsMapOf ?A u = None"
    using assms by (rule jsMapOf_guarded_None)
  have "getOrZero (jsMapOf (?A @ ?B)) u = getOrZero (jsMapOf ?B) u"
    unfolding getOrZero_def jsMapOf_append l by (cases "jsMapOf ?B u") simp_all
  then show ?thesis by (simp only: getOrZero_guarded)
qed

lemma getOrZero_pair_left:
  assumes "u \<notin> set ys"
  shows "getOrZero (jsMapOf ((if P then countQuery k1 c1 t1 xs else [])
                              @ (if Q then countQuery k2 c2 t2 ys else []))) u =
         (if P \<and> u \<in> set xs then countOn k1 c1 t1 u else 0)"
proof -
  let ?A = "if P then countQuery k1 c1 t1 xs else []"
  let ?B = "if Q then countQuery k2 c2 t2 ys else []"
  have r: "jsMapOf ?B u = None"
    using assms by (rule jsMapOf_guarded_None)
  have "getOrZero (jsMapOf (?A @ ?B)) u = getOrZero (jsMapOf ?A) u"
    unfolding getOrZero_def jsMapOf_append r by simp
  then show ?thesis by (simp only: getOrZero_guarded)
qed

lemma countOn_False: "countOn key (\<lambda>r. False) tbl u = 0"
  by (simp add: countOn_def)

lemma distinct_uri_filter:
  assumes "distinct (map uri tbl)" and "p \<in> set tbl"
  shows "uri p \<in> uri ` {q \<in> set tbl. Q q} \<longleftrightarrow> Q p"
  using assms by (auto simp: distinct_map inj_on_def)

lemma updateEngagementUnchunked_char:
  assumes dist: "distinct (map uri (post_tbl db))"
  shows "updateEngagementUnchunked nb tlim db =
     db \<lparr> post_tbl := map (\<lambda>p. if isCandidate nb tlim db p then recomputed nb db p else p)
                         (post_tbl db) \<rparr>"
proof -
  define posts where "posts = post_tbl db"
  define engs where "engs = engagement_tbl db"
  define subs where "subs = map s_did (subscriber_tbl db)"
  define cand where
    "cand = (\<lambda>p :: Post. tlim \<le> indexedAt p \<and> author p \<in> set (remdups (map f_follows (follows_tbl db) @ nb)))"
  define recent where "recent = filter cand posts"
  define pubUris where "pubUris = map uri (filter (\<lambda>p. author p \<in> set nb) recent)"
  define otherUris where "otherUris = map uri (filter (\<lambda>p. author p \<notin> set nb) recent)"
  define L where "L = jsMapOf
      ((if length otherUris > 0
        then countQuery subjectUri (\<lambda>e. e_type e = 2) engs otherUris else [])
       @ (if length pubUris > 0 \<and> length subs > 0
          then countQuery subjectUri (\<lambda>e. e_author e \<in> set subs \<and> e_type e = 2) engs pubUris
          else []))"
  define R where "R = jsMapOf
      ((if length otherUris > 0
        then countQuery subjectUri (\<lambda>e. e_type e = 1) engs otherUris else [])
       @ (if length pubUris > 0 \<and> length subs > 0
          then countQuery subjectUri (\<lambda>e. e_author e \<in> set subs \<and> e_type e = 1) engs pubUris
          else []))"
  define C where "C = jsMapOf
      ((if length otherUris > 0
        then countQuery rootUri (\<lambda>p. rootUri p \<noteq> []) posts otherUris else [])
       @ (if length pubUris > 0 \<and> length subs > 0
          then countQuery rootUri (\<lambda>p. author p \<in> set subs \<and> rootUri p \<noteq> []) posts pubUris
          else []))"
  note defs = posts_def engs_def subs_def cand_def recent_def pubUris_def otherUris_def
    L_def R_def C_def
  have run: "updateEngagementUnchunked nb tlim db =
      (if follows_tbl db = [] \<or> recent = [] then db
       else db \<lparr> post_tbl := updateBatch L R C posts (map uri recent) \<rparr>)"
    unfolding defs updateEngagementUnchunked_def Let_def by simp
  have candidate: "isCandidate nb tlim db p \<longleftrightarrow> follows_tbl db \<noteq> [] \<and> cand p" for p
    by (auto simp: isCandidate_def cand_def)
  have member: "uri p \<in> set (map uri recent) \<longleftrightarrow> cand p" if "p \<in> set posts" for p
    using distinct_uri_filter [of posts p cand] dist that
    by (simp add: recent_def posts_def)
  have counts: "recount L R C p = recomputed nb db p" if p: "p \<in> set posts" "cand p" for p
  proof (cases "author p \<in> set nb")
    case True
    have inpub: "uri p \<in> set pubUris"
      using p True by (auto simp: pubUris_def recent_def)
    have "uri p \<in> uri ` {q \<in> set posts. cand q \<and> author q \<notin> set nb} \<longleftrightarrow>
        cand p \<and> author p \<notin> set nb"
      using dist p(1) by (intro distinct_uri_filter) (simp_all add: posts_def)
    with True have notother: "uri p \<notin> set otherUris"
      by (simp add: otherUris_def recent_def)
    have ne: "length pubUris > 0"
      using inpub by (cases pubUris) auto
    have who: "countedActor nb db p a \<longleftrightarrow> a \<in> set subs" for a
      using True by (simp add: countedActor_def subs_def)
    have l: "getOrZero L (uri p) =
        countOn subjectUri (\<lambda>e. e_author e \<in> set subs \<and> e_type e = 2) engs (uri p)"
      unfolding L_def
      by (subst getOrZero_pair_right [OF notother]) (use inpub ne in \<open>simp add: countOn_False\<close>)
    have r: "getOrZero R (uri p) =
        countOn subjectUri (\<lambda>e. e_author e \<in> set subs \<and> e_type e = 1) engs (uri p)"
      unfolding R_def
      by (subst getOrZero_pair_right [OF notother]) (use inpub ne in \<open>simp add: countOn_False\<close>)
    have c: "getOrZero C (uri p) =
        countOn rootUri (\<lambda>q. author q \<in> set subs \<and> rootUri q \<noteq> []) posts (uri p)"
      unfolding C_def
      by (subst getOrZero_pair_right [OF notother]) (use inpub ne in \<open>simp add: countOn_False\<close>)
    show ?thesis
      unfolding recount_def recomputed_def who l r c
      by (simp add: posts_def engs_def)
  next
    case False
    have inother: "uri p \<in> set otherUris"
      using p False by (auto simp: otherUris_def recent_def)
    have "uri p \<in> uri ` {q \<in> set posts. cand q \<and> author q \<in> set nb} \<longleftrightarrow>
        cand p \<and> author p \<in> set nb"
      using dist p(1) by (intro distinct_uri_filter) (simp_all add: posts_def)
    with False have notpub: "uri p \<notin> set pubUris"
      by (simp add: pubUris_def recent_def)
    have ne: "length otherUris > 0"
      using inother by (cases otherUris) auto
    have who: "countedActor nb db p a \<longleftrightarrow> True" for a
      using False by (simp add: countedActor_def)
    have l: "getOrZero L (uri p) = countOn subjectUri (\<lambda>e. e_type e = 2) engs (uri p)"
      unfolding L_def
      by (subst getOrZero_pair_left [OF notpub]) (use inother ne in simp)
    have r: "getOrZero R (uri p) = countOn subjectUri (\<lambda>e. e_type e = 1) engs (uri p)"
      unfolding R_def
      by (subst getOrZero_pair_left [OF notpub]) (use inother ne in simp)
    have c: "getOrZero C (uri p) = countOn rootUri (\<lambda>q. rootUri q \<noteq> []) posts (uri p)"
      unfolding C_def
      by (subst getOrZero_pair_left [OF notpub]) (use inother ne in simp)
    show ?thesis
      unfolding recount_def recomputed_def who l r c
      by (simp add: posts_def engs_def)
  qed
  show ?thesis
  proof (cases "follows_tbl db = [] \<or> recent = []")
    case True
    then have "\<not> isCandidate nb tlim db p" if "p \<in> set posts" for p
      using that by (auto simp: candidate recent_def filter_empty_conv)
    then have "map (\<lambda>p. if isCandidate nb tlim db p then recomputed nb db p else p) posts = posts"
      by (simp add: map_idI)
    with True show ?thesis
      by (simp add: run posts_def)
  next
    case False
    have "(if uri p \<in> set (map uri recent) then recount L R C p else p) =
        (if isCandidate nb tlim db p then recomputed nb db p else p)" if "p \<in> set posts" for p
      unfolding member [OF that] candidate using False counts [OF that] by simp
    then have "updateBatch L R C posts (map uri recent) =
        map (\<lambda>p. if isCandidate nb tlim db p then recomputed nb db p else p) posts"
      unfolding updateBatch_pointwise by (intro map_cong refl)
    with False show ?thesis
      by (simp add: run posts_def)
  qed
qed

lemma updateEngagement_char:
  assumes "distinct (map uri (post_tbl db))"
  shows "updateEngagement nb tlim db =
     db \<lparr> post_tbl := map (\<lambda>p. if isCandidate nb tlim db p then recomputed nb db p else p)
                         (post_tbl db) \<rparr>"
proof -
  have "updateEngagement nb tlim db = updateEngagementUnchunked nb tlim db"
    unfolding updateEngagement_def
    by (rule updateEngagementWith_unchunked) (simp_all add: IN_CLAUSE_CHUNK_SIZE_def batchSize_def)
  then show ?thesis
    by (simp add: updateEngagementUnchunked_char [OF assms])
qed

lemma countOn_map:
  assumes "\<And>q. key (f q) = key q" and "\<And>q. cond (f q) = cond q"
  shows "countOn key cond (map f tbl) u = countOn key cond tbl u"
proof -
  have "filter (\<lambda>r. key r = u \<and> cond r) (map f tbl) = map f (filter (\<lambda>r. key r = u \<and> cond r) tbl)"
    by (simp add: filter_map comp_def assms)
  then show ?thesis by (simp add: countOn_def)
qed

lemma recomputed_prior_independent:
  "recomputed nb (db \<lparr> post_tbl := map (\<lambda>q. withCounts (fl q) (fr q) (fc q) q) (post_tbl db) \<rparr>)
     (withCounts l r c p) = recomputed nb db p"
proof -
  let ?db2 = "db \<lparr> post_tbl := map (\<lambda>q. withCounts (fl q) (fr q) (fc q) q) (post_tbl db) \<rparr>"
  have who: "countedActor nb ?db2 (withCounts l r c p) = countedActor nb db p"
    by (rule ext) (simp add: countedActor_def withCounts_def)
  have com: "countOn rootUri (\<lambda>q. countedActor nb db p (author q) \<and> rootUri q \<noteq> [])
        (map (\<lambda>q. withCounts (fl q) (fr q) (fc q) q) (post_tbl db)) u =
      countOn rootUri (\<lambda>q. countedActor nb db p (author q) \<and> rootUri q \<noteq> []) (post_tbl db) u"
    for u
    by (rule countOn_map) (simp_all add: withCounts_def)
  show ?thesis
    unfolding recomputed_def who
    by (simp add: com) (simp add: withCounts_def)
qed

lemma isCandidate_prior_independent:
  "isCandidate nb tlim
     (db \<lparr> post_tbl := map (\<lambda>q. withCounts (fl q) (fr q) (fc q) q) (post_tbl db) \<rparr>)
     (withCounts l r c p) = isCandidate nb tlim db p"
  by (simp add: isCandidate_def withCounts_def)

lemma busyDatabase_distinct: "distinct (map uri (post_tbl busyDatabase))"
  by (simp add: busyDatabase_def mkPost_def)

lemma busyDatabase_recomputed:
  "map storedCounts
     (map (\<lambda>p. if isCandidate theNewsbots windowStart busyDatabase p
               then recomputed theNewsbots busyDatabase p else p)
        (post_tbl busyDatabase)) =
     [(''at://a/1'', Some 3, Some 0, Some 1, Some 0),
      (''at://a/2'', Some 0, Some 1, Some 0, Some 0),
      (''at://a/3'', Some 0, Some 0, Some 0, Some 0),
      (''at://news/n'', Some 1, Some 0, Some 0, Some 0),
      (''at://x/c'', Some 0, Some 0, Some 0, Some 0),
      (''at://a/0'', Some 5, Some 0, Some 0, Some 0)]"
  by (simp add: busyDatabase_def mkPost_def likeOf_def theNewsbots_def windowStart_def
        isCandidate_def recomputed_def countedActor_def countOn_def storedCounts_def)

text \<open>
  Claim C1, as amended. A run rewrites, for every candidate post, the three cached counts
  \<^verbatim>\<open>likes_count\<close>, \<^verbatim>\<open>repost_count\<close> and \<^verbatim>\<open>comments_count\<close> with the numbers of type-2 rows,
  type-1 rows and comments on it, counting for a publisher's post only what subscribers
  wrote; every other post row is left as it is. The new counts do not depend on the counts
  stored before, and neither does which posts are candidates.
\<close>

theorem updateEngagement_recounts:
  "(distinct (map uri (post_tbl db)) \<longrightarrow>
      updateEngagement nb tlim db =
        db \<lparr> post_tbl := map (\<lambda>p. if isCandidate nb tlim db p then recomputed nb db p else p)
                            (post_tbl db) \<rparr>)
   \<and> recomputed nb (db \<lparr> post_tbl := map (\<lambda>q. withCounts (fl q) (fr q) (fc q) q) (post_tbl db) \<rparr>)
        (withCounts l r c p) = recomputed nb db p
   \<and> isCandidate nb tlim
        (db \<lparr> post_tbl := map (\<lambda>q. withCounts (fl q) (fr q) (fc q) q) (post_tbl db) \<rparr>)
        (withCounts l r c p) = isCandidate nb tlim db p"
proof (intro conjI impI)
  show "updateEngagement nb tlim db =
        db \<lparr> post_tbl := map (\<lambda>p. if isCandidate nb tlim db p then recomputed nb db p else p)
                            (post_tbl db) \<rparr>" if "distinct (map uri (post_tbl db))"
    using that by (rule updateEngagement_char)
  show "recomputed nb (db \<lparr> post_tbl := map (\<lambda>q. withCounts (fl q) (fr q) (fc q) q) (post_tbl db) \<rparr>)
        (withCounts l r c p) = recomputed nb db p"
    by (rule recomputed_prior_independent)
  show "isCandidate nb tlim
        (db \<lparr> post_tbl := map (\<lambda>q. withCounts (fl q) (fr q) (fc q) q) (post_tbl db) \<rparr>)
        (withCounts l r c p) = isCandidate nb tlim db p"
    by (rule isCandidate_prior_independent)
qed

theorem updateEngagement_recounts_witness:
  "map storedCounts (post_tbl (updateEngagement theNewsbots windowStart busyDatabase)) =
     [(''at://a/1'', Some 3, Some 0, Some 1, Some 0),
      (''at://a/2'', Some 0, Some 1, Some 0, Some 0),
      (''at://a/3'', Some 0, Some 0, Some 0, Some 0),
      (''at://news/n'', Some 1, Some 0, Some 0, Some 0),
      (''at://x/c'', Some 0, Some 0, Some 0, Some 0),
      (''at://a/0'', Some 5, Some 0, Some 0, Some 0)]"
proof -
  from updateEngagement_recounts [of busyDatabase theNewsbots windowStart] busyDatabase_distinct
  have "updateEngagement theNewsbots windowStart busyDatabase =
      busyDatabase \<lparr> post_tbl :=
        map (\<lambda>p. if isCandidate theNewsbots windowStart busyDatabase p
                 then recomputed theNewsbots busyDatabase p else p)
          (post_tbl busyDatabase) \<rparr>"
    by blast
  then have "post_tbl (updateEngagement theNewsbots windowStart busyDatabase) =
      map (\<lambda>p. if isCandidate theNewsbots windowStart busyDatabase p
               then recomputed theNewsbots busyDatabase p else p)
        (post_tbl busyDatabase)"
    by simp
  then show ?thesis
    by (simp only: busyDatabase_recomputed)
qed

text \<open>
  In the example store the publisher's post has three type-2 rows and is given the likes
  count 1, and the post with one type-3 row keeps its stored quote count 0: the run writes
  no quote count.
\<close>

theorem updateEngagement_four_counts_counterexample:
  "map storedCounts (post_tbl (updateEngagement theNewsbots windowStart busyDatabase)) =
     [(''at://a/1'', Some 3, Some 0, Some 1, Some 0),
      (''at://a/2'', Some 0, Some 1, Some 0, Some 0),
      (''at://a/3'', Some 0, Some 0, Some 0, Some 0),
      (''at://news/n'', Some 1, Some 0, Some 0, Some 0),
      (''at://x/c'', Some 0, Some 0, Some 0, Some 0),
      (''at://a/0'', Some 5, Some 0, Some 0, Some 0)]
   \<and> countOn subjectUri isLikeRow (engagement_tbl busyDatabase) ''at://news/n'' = 3
   \<and> countOn subjectUri isQuoteRow (engagement_tbl busyDatabase) ''at://a/1'' = 1"
proof -
  have "countOn subjectUri isLikeRow (engagement_tbl busyDatabase) ''at://news/n'' = 3"
    and "countOn subjectUri isQuoteRow (engagement_tbl busyDatabase) ''at://a/1'' = 1"
    by (simp_all add: countOn_def isLikeRow_def isQuoteRow_def busyDatabase_def likeOf_def)
  moreover have "post_tbl (updateEngagement theNewsbots windowStart busyDatabase) =
      map (\<lambda>p. if isCandidate theNewsbots windowStart busyDatabase p
               then recomputed theNewsbots busyDatabase p else p)
        (post_tbl busyDatabase)"
    by (simp add: updateEngagement_char [OF busyDatabase_distinct])
  ultimately show ?thesis
    by (simp only: busyDatabase_recomputed)
qed

theorem updateEngagement_chunked_equiv_witness:
  "chunksOf 2 (map uri (take 4 (post_tbl busyDatabase))) =
     [[''at://a/1'', ''at://a/2''], [''at://a/3'', ''at://news/n'']]
   \<and> updateEngagementWith 2 2 theNewsbots windowStart busyDatabase =
       updateEngagementUnchunked theNewsbots windowStart busyDatabase
   \<and> map storedCounts (post_tbl (updateEngagementWith 2 2 theNewsbots windowStart busyDatabase)) =
     [(''at://a/1'', Some 3, Some 0, Some 1, Some 0),
      (''at://a/2'', Some 0, Some 1, Some 0, Some 0),
      (''at://a/3'', Some 0, Some 0, Some 0, Some 0),
      (''at://news/n'', Some 1, Some 0, Some 0, Some 0),
      (''at://x/c'', Some 0, Some 0, Some 0, Some 0),
      (''at://a/0'', Some 5, Some 0, Some 0, Some 0)]"
proof -
  have ch: "chunksOf 2 (map uri (take 4 (post_tbl busyDatabase))) =
     [[''at://a/1'', ''at://a/2''], [''at://a/3'', ''at://news/n'']]"
    by (simp add: chunksOf.simps busyDatabase_def mkPost_def)
  from updateEngagement_chunked_equiv [of theNewsbots windowStart busyDatabase 2 2,
      THEN conjunct2, THEN conjunct1]
  have eq: "updateEngagementWith 2 2 theNewsbots windowStart busyDatabase =
       updateEngagementUnchunked theNewsbots windowStart busyDatabase"
    by simp
  have "post_tbl (updateEngagementUnchunked theNewsbots windowStart busyDatabase) =
      map (\<lambda>p. if isCandidate theNewsbots windowStart busyDatabase p
               then recomputed theNewsbots busyDatabase p else p)
        (post_tbl busyDatabase)"
    by (simp add: updateEngagementUnchunked_char [OF busyDatabase_distinct])
  then show ?thesis
    unfolding eq by (simp only: ch busyDatabase_recomputed)
qed

section \<open>Properties of the export's deduplication\<close>

lemma sortsBefore_total: "sortsBefore a b \<or> sortsBefore b a"
  by (auto simp: sortsBefore_def)

lemma sortsBefore_trans: "sortsBefore a b \<Longrightarrow> sortsBefore b c \<Longrightarrow> sortsBefore a c"
  by (auto simp: sortsBefore_def)

lemma sortsBefore_uri: "sortsBefore a b \<Longrightarrow> event_uri a \<le> event_uri b"
  by (auto simp: sortsBefore_def)

lemma set_insertRow: "set (insertRow r xs) = insert r (set xs)"
  by (induction xs) auto

lemma sorted_insertRow:
  "sorted_wrt sortsBefore xs \<Longrightarrow> sorted_wrt sortsBefore (insertRow r xs)"
proof (induction xs)
  case Nil
  show ?case by simp
next
  case (Cons x xs)
  show ?case
  proof (cases "sortsBefore r x")
    case True
    with Cons.prems show ?thesis
      by (auto intro: sortsBefore_trans)
  next
    case False
    then have "sortsBefore x r"
      using sortsBefore_total by blast
    with Cons False show ?thesis
      by (auto simp: set_insertRow)
  qed
qed

lemma set_sortRows: "set (sortRows rows) = set rows"
  unfolding sortRows_def by (induction rows) (auto simp: set_insertRow)

lemma sorted_sortRows: "sorted_wrt sortsBefore (sortRows rows)"
  unfolding sortRows_def by (induction rows) (auto simp: sorted_insertRow)

lemma distinctOn_hd:
  "set (distinctOn xs) \<subseteq> set xs \<and> (xs \<noteq> [] \<longrightarrow> distinctOn xs \<noteq> [] \<and> hd (distinctOn xs) = hd xs)"
proof (induction xs rule: distinctOn.induct)
  case 1
  show ?case by simp
next
  case (2 r)
  show ?case by simp
next
  case (3 r1 r2 rs)
  show ?case
  proof (cases "event_uri r1 = event_uri r2")
    case True
    with 3(1) show ?thesis by auto
  next
    case False
    with 3(2) show ?thesis by auto
  qed
qed

lemma set_distinctOn: "set (distinctOn xs) \<subseteq> set xs"
  using distinctOn_hd by blast

lemma distinctOn_Cons: "\<exists>ys. distinctOn (r # rs) = r # ys"
proof -
  have "distinctOn (r # rs) \<noteq> []" and "hd (distinctOn (r # rs)) = r"
    using distinctOn_hd [of "r # rs"] by simp_all
  then show ?thesis by (cases "distinctOn (r # rs)") auto
qed

lemma uris_distinctOn: "event_uri ` set (distinctOn xs) = event_uri ` set xs"
proof (induction xs rule: distinctOn.induct)
  case 1
  show ?case by simp
next
  case (2 r)
  show ?case by simp
next
  case (3 r1 r2 rs)
  show ?case
  proof (cases "event_uri r1 = event_uri r2")
    case True
    with 3(1) have "event_uri ` set (distinctOn (r1 # r2 # rs)) = event_uri ` set (r1 # rs)"
      by simp
    also have "\<dots> = event_uri ` set (r1 # r2 # rs)"
      using True by auto
    finally show ?thesis .
  next
    case False
    with 3(2) show ?thesis by simp
  qed
qed

lemma distinctOn_strict:
  "sorted_wrt sortsBefore xs \<Longrightarrow>
   sorted_wrt (\<lambda>a b. event_uri a < event_uri b) (distinctOn xs)"
proof (induction xs rule: distinctOn.induct)
  case 1
  show ?case by simp
next
  case (2 r)
  show ?case by simp
next
  case (3 r1 r2 rs)
  show ?case
  proof (cases "event_uri r1 = event_uri r2")
    case True
    from 3(3) have "sorted_wrt sortsBefore (r1 # rs)" by simp
    with 3(1) True show ?thesis by simp
  next
    case False
    from 3(3) have s: "sorted_wrt sortsBefore (r2 # rs)" by simp
    from 3(3) have "sortsBefore r1 r2" by simp
    with False have lt: "event_uri r1 < event_uri r2"
      by (auto simp: sortsBefore_def)
    have "event_uri r1 < event_uri y" if "y \<in> set (distinctOn (r2 # rs))" for y
    proof -
      from that have "y \<in> set (r2 # rs)" using set_distinctOn by blast
      with s have "y = r2 \<or> sortsBefore r2 y" by auto
      then have "event_uri r2 \<le> event_uri y" using sortsBefore_uri by auto
      with lt show ?thesis by simp
    qed
    with 3(2) [OF False s] False show ?thesis by simp
  qed
qed

lemma distinctOn_first:
  assumes "sorted_wrt sortsBefore xs" and "r \<in> set (distinctOn xs)" and "r' \<in> set xs"
    and "event_uri r' = event_uri r"
  shows "r' = r \<or> sortsBefore r r'"
  using assms
proof (induction xs rule: distinctOn.induct)
  case 1
  then show ?case by simp
next
  case (2 x)
  then show ?case by simp
next
  case (3 r1 r2 rs)
  from 3(3) have s1: "sorted_wrt sortsBefore (r1 # rs)" and s2: "sorted_wrt sortsBefore (r2 # rs)"
    and b12: "sortsBefore r1 r2" and b1: "\<forall>y \<in> set rs. sortsBefore r1 y"
    by simp_all
  show ?case
  proof (cases "event_uri r1 = event_uri r2")
    case True
    with 3(4) have rin: "r \<in> set (distinctOn (r1 # rs))" by simp
    show ?thesis
    proof (cases "r' = r2")
      case False
      with 3(5) have "r' \<in> set (r1 # rs)" by auto
      from 3(1) [OF True s1 rin this 3(6)] show ?thesis .
    next
      case r2: True
      obtain ys where ys: "distinctOn (r1 # rs) = r1 # ys"
        using distinctOn_Cons by blast
      have strict: "sorted_wrt (\<lambda>a b. event_uri a < event_uri b) (r1 # ys)"
        using distinctOn_strict [OF s1] ys by simp
      from rin ys have "r = r1 \<or> r \<in> set ys" by auto
      then have "r = r1"
      proof
        assume "r \<in> set ys"
        with strict have "event_uri r1 < event_uri r" by auto
        with 3(6) r2 True show ?thesis by simp
      qed
      with r2 b12 show ?thesis by simp
    qed
  next
    case False
    with b12 have lt: "event_uri r1 < event_uri r2"
      by (auto simp: sortsBefore_def)
    from False 3(4) have "r = r1 \<or> r \<in> set (distinctOn (r2 # rs))" by auto
    then show ?thesis
    proof
      assume "r = r1"
      with 3(5) b12 b1 show ?thesis by auto
    next
      assume rin: "r \<in> set (distinctOn (r2 # rs))"
      then have "r \<in> set (r2 # rs)" using set_distinctOn by blast
      with s2 have "r = r2 \<or> sortsBefore r2 r" by auto
      then have "event_uri r2 \<le> event_uri r" using sortsBefore_uri by auto
      with lt 3(6) have "r' \<noteq> r1" by auto
      with 3(5) have "r' \<in> set (r2 # rs)" by auto
      from 3(2) [OF False s2 rin this 3(6)] show ?thesis .
    qed
  qed
qed

lemma strict_uri_count:
  "sorted_wrt (\<lambda>a b. event_uri a < event_uri b) xs \<Longrightarrow>
   length (filter (\<lambda>r. event_uri r = u) xs) = (if u \<in> event_uri ` set xs then 1 else 0)"
proof (induction xs)
  case Nil
  show ?case by simp
next
  case (Cons x xs)
  then have ih: "length (filter (\<lambda>r. event_uri r = u) xs) = (if u \<in> event_uri ` set xs then 1 else 0)"
    and above: "\<forall>y \<in> set xs. event_uri x < event_uri y"
    by simp_all
  show ?case
  proof (cases "event_uri x = u")
    case True
    with above have "u \<notin> event_uri ` set xs" by auto
    with True ih show ?thesis by simp
  next
    case False
    with ih show ?thesis by auto
  qed
qed

lemma deduped_subset: "set (deduped rows) \<subseteq> set rows"
  using set_distinctOn [of "sortRows rows"] by (simp add: deduped_def set_sortRows)

lemma deduped_once:
  "r' \<in> set rows \<Longrightarrow> length (filter (\<lambda>r. event_uri r = event_uri r') (deduped rows)) = 1"
proof -
  assume "r' \<in> set rows"
  then have "event_uri r' \<in> event_uri ` set (deduped rows)"
    by (simp add: deduped_def uris_distinctOn set_sortRows)
  moreover have "sorted_wrt (\<lambda>a b. event_uri a < event_uri b) (deduped rows)"
    unfolding deduped_def by (rule distinctOn_strict) (rule sorted_sortRows)
  ultimately show ?thesis by (simp add: strict_uri_count)
qed

lemma deduped_wins:
  assumes "r \<in> set (deduped rows)" and "r' \<in> set rows" and "event_uri r' = event_uri r"
  shows "winsOver r r'"
proof -
  have "r' = r \<or> sortsBefore r r'"
    using assms by (intro distinctOn_first [of "sortRows rows"])
      (simp_all add: sorted_sortRows set_sortRows deduped_def)
  with assms(3) show ?thesis
    by (auto simp: winsOver_def sortsBefore_def)
qed

lemma type_rank_scoped: "r \<in> set (scopedRows f pubs db) \<Longrightarrow> type_rank r = typeRank (x_type r)"
  by (auto simp: scopedRows_def enrich_def split: prod.splits)

lemma typeRank_inj: "typeRank a = typeRank b \<Longrightarrow> a = b"
  by (cases a; cases b) simp_all

lemma typeOfCode_not_Comment: "typeOfCode t \<noteq> Comment"
  by (simp add: typeOfCode_def)

lemma distinct_key_eq:
  "distinct (map key xs) \<Longrightarrow> a \<in> set xs \<Longrightarrow> b \<in> set xs \<Longrightarrow> key a = key b \<Longrightarrow> a = b"
  by (auto simp: distinct_map inj_on_def)

lemma scoped_source:
  assumes "r \<in> set (scopedRows f pubs db)"
  shows "(\<exists>e \<in> set (engagement_tbl db).
            r = enrich pubs db (typeOfCode (e_type e), e_uri e, subjectUri e, e_author e, e_createdAt e))
         \<or> (\<exists>p \<in> set (post_tbl db).
            r = enrich pubs db (Comment, uri p, rootUri p, author p, createdAt p))"
  using assms by (auto simp: scopedRows_def baseRows_def)

lemma enrich_fields:
  "x_type (enrich pubs db (ty, ev, subj, who, at)) = ty"
  "event_uri (enrich pubs db (ty, ev, subj, who, at)) = ev"
  by (simp_all add: enrich_def)

lemma scoped_key_unique:
  assumes pk: "distinct (map e_uri (engagement_tbl db))" "distinct (map uri (post_tbl db))"
    and r1: "r1 \<in> set (scopedRows f pubs db)" and r2: "r2 \<in> set (scopedRows f pubs db)"
    and same: "event_uri r1 = event_uri r2" "x_type r1 = x_type r2"
  shows "r1 = r2"
proof -
  note s1 = scoped_source [OF r1] and s2 = scoped_source [OF r2]
  from s1 show ?thesis
  proof
    assume "\<exists>e \<in> set (engagement_tbl db).
        r1 = enrich pubs db (typeOfCode (e_type e), e_uri e, subjectUri e, e_author e, e_createdAt e)"
    then obtain e1 where e1: "e1 \<in> set (engagement_tbl db)"
      "r1 = enrich pubs db (typeOfCode (e_type e1), e_uri e1, subjectUri e1, e_author e1, e_createdAt e1)"
      by blast
    from s2 show ?thesis
    proof
      assume "\<exists>e \<in> set (engagement_tbl db).
          r2 = enrich pubs db (typeOfCode (e_type e), e_uri e, subjectUri e, e_author e, e_createdAt e)"
      then obtain e2 where e2: "e2 \<in> set (engagement_tbl db)"
        "r2 = enrich pubs db (typeOfCode (e_type e2), e_uri e2, subjectUri e2, e_author e2, e_createdAt e2)"
        by blast
      from same(1) e1(2) e2(2) have "e_uri e1 = e_uri e2" by (simp add: enrich_fields)
      with pk(1) e1(1) e2(1) have "e1 = e2" by (rule distinct_key_eq)
      with e1(2) e2(2) show ?thesis by simp
    next
      assume "\<exists>p \<in> set (post_tbl db).
          r2 = enrich pubs db (Comment, uri p, rootUri p, author p, createdAt p)"
      then have "x_type r2 = Comment" by (auto simp: enrich_fields)
      moreover from e1(2) have "x_type r1 \<noteq> Comment"
        by (simp add: enrich_fields typeOfCode_not_Comment)
      ultimately show ?thesis using same(2) by simp
    qed
  next
    assume "\<exists>p \<in> set (post_tbl db).
        r1 = enrich pubs db (Comment, uri p, rootUri p, author p, createdAt p)"
    then obtain p1 where p1: "p1 \<in> set (post_tbl db)"
      "r1 = enrich pubs db (Comment, uri p1, rootUri p1, author p1, createdAt p1)"
      by blast
    from s2 show ?thesis
    proof
      assume "\<exists>e \<in> set (engagement_tbl db).
          r2 = enrich pubs db (typeOfCode (e_type e), e_uri e, subjectUri e, e_author e, e_createdAt e)"
      then have "x_type r2 \<noteq> Comment"
        by (auto simp: enrich_fields typeOfCode_not_Comment)
      moreover from p1(2) have "x_type r1 = Comment" by (simp add: enrich_fields)
      ultimately show ?thesis using same(2) by simp
    next
      assume "\<exists>p \<in> set (post_tbl db).
          r2 = enrich pubs db (Comment, uri p, rootUri p, author p, createdAt p)"
      then obtain p2 where p2: "p2 \<in> set (post_tbl db)"
        "r2 = enrich pubs db (Comment, uri p2, rootUri p2, author p2, createdAt p2)"
        by blast
      from same(1) p1(2) p2(2) have "uri p1 = uri p2" by (simp add: enrich_fields)
      with pk(2) p1(1) p2(1) have "p1 = p2" by (rule distinct_key_eq)
      with p1(2) p2(2) show ?thesis by simp
    qed
  qed
qed

lemma winner_is_output:
  assumes pk: "distinct (map e_uri (engagement_tbl db))" "distinct (map uri (post_tbl db))"
    and m: "m \<in> set (scopedRows f pubs db)"
    and best: "\<forall>r' \<in> set (scopedRows f pubs db). event_uri r' = event_uri m \<longrightarrow> winsOver m r'"
  shows "m \<in> set (dedupedRows f pubs db)"
proof -
  let ?rows = "scopedRows f pubs db"
  have "event_uri m \<in> event_uri ` set (deduped ?rows)"
    using m by (simp add: deduped_def uris_distinctOn set_sortRows)
  then obtain out where out: "out \<in> set (deduped ?rows)" "event_uri out = event_uri m"
    by auto
  then have outin: "out \<in> set ?rows"
    using deduped_subset by blast
  have "winsOver out m"
    using out m by (intro deduped_wins [of out ?rows]) simp_all
  moreover have "winsOver m out"
    using best outin out(2) by simp
  ultimately have "created_at out = created_at m" and "type_rank out = type_rank m"
    by (auto simp: winsOver_def)
  then have "typeRank (x_type out) = typeRank (x_type m)"
    using type_rank_scoped [OF outin] type_rank_scoped [OF m] by simp
  then have "x_type out = x_type m"
    by (rule typeRank_inj)
  with pk outin m out(2) have "out = m"
    by (intro scoped_key_unique [of db out f pubs m]) simp_all
  with out(1) show ?thesis
    by (simp add: dedupedRows_def)
qed

lemma collision_scoped_subscriber:
  "scopedRows dayFilters [''news'']
     (collisionDatabase [\<lparr> s_handle = ''b.example'', s_did = ''b'' \<rparr>]) =
     [quoteExportRow, commentExportRow True]"
  by (simp add: scopedRows_def baseRows_def enrich_def scopeFilter_def dayFilters_def
        collisionDatabase_def mkPost_def typeOfCode_def split_part_def quoteExportRow_def
        commentExportRow_def)

lemma collision_scoped_outsider:
  "scopedRows dayFilters [''news''] (collisionDatabase []) = [commentExportRow False]"
  by (simp add: scopedRows_def baseRows_def enrich_def scopeFilter_def dayFilters_def
        collisionDatabase_def mkPost_def typeOfCode_def split_part_def commentExportRow_def)

text \<open>
  Claim C5, as amended. The deduplication reads the rows that passed the request's type,
  actor and scope filters. Its output consists of such rows, holds exactly one row for the
  event URI of each of them, and that row wins over every filtered row of the same event:
  it has the latest \<^verbatim>\<open>created_at\<close>, and among rows created at that instant the highest type
  rank, where like < repost < comment < quote. With the primary keys of the two tables in
  force, a filtered row that wins over all filtered rows of its event is the output row of
  that event, so the output is determined by the rows.
\<close>

theorem dedupedRows_latest_then_rank:
  "set (dedupedRows f pubs db) \<subseteq> set (scopedRows f pubs db)
   \<and> (r' \<in> set (scopedRows f pubs db) \<longrightarrow>
        length (filter (\<lambda>r. event_uri r = event_uri r') (dedupedRows f pubs db)) = 1)
   \<and> (r \<in> set (dedupedRows f pubs db) \<and> r' \<in> set (scopedRows f pubs db) \<and>
        event_uri r' = event_uri r \<longrightarrow> winsOver r r')
   \<and> (r' \<in> set (scopedRows f pubs db) \<longrightarrow> type_rank r' = typeRank (x_type r'))
   \<and> typeRank Like < typeRank Repost \<and> typeRank Repost < typeRank Comment
   \<and> typeRank Comment < typeRank Quote
   \<and> (distinct (map e_uri (engagement_tbl db)) \<and> distinct (map uri (post_tbl db)) \<and>
        m \<in> set (scopedRows f pubs db) \<and>
        (\<forall>x \<in> set (scopedRows f pubs db). event_uri x = event_uri m \<longrightarrow> winsOver m x)
      \<longrightarrow> m \<in> set (dedupedRows f pubs db))"
proof (intro conjI impI)
  show "set (dedupedRows f pubs db) \<subseteq> set (scopedRows f pubs db)"
    unfolding dedupedRows_def by (rule deduped_subset)
  show "length (filter (\<lambda>r. event_uri r = event_uri r') (dedupedRows f pubs db)) = 1"
    if "r' \<in> set (scopedRows f pubs db)"
    unfolding dedupedRows_def using that by (rule deduped_once)
  show "winsOver r r'"
    if "r \<in> set (dedupedRows f pubs db) \<and> r' \<in> set (scopedRows f pubs db) \<and>
        event_uri r' = event_uri r"
    using that by (intro deduped_wins [of r "scopedRows f pubs db"]) (simp_all add: dedupedRows_def)
  show "type_rank r' = typeRank (x_type r')" if "r' \<in> set (scopedRows f pubs db)"
    using that by (rule type_rank_scoped)
  show "typeRank Like < typeRank Repost" "typeRank Repost < typeRank Comment"
    "typeRank Comment < typeRank Quote"
    by simp_all
  show "m \<in> set (dedupedRows f pubs db)"
    if "distinct (map e_uri (engagement_tbl db)) \<and> distinct (map uri (post_tbl db)) \<and>
        m \<in> set (scopedRows f pubs db) \<and>
        (\<forall>x \<in> set (scopedRows f pubs db). event_uri x = event_uri m \<longrightarrow> winsOver m x)"
    using that by (intro winner_is_output) simp_all
qed

theorem dedupedRows_latest_then_rank_witness:
  "scopedRows dayFilters [''news'']
     (collisionDatabase [\<lparr> s_handle = ''b.example'', s_did = ''b'' \<rparr>]) =
     [quoteExportRow, commentExportRow True]
   \<and> event_uri (commentExportRow True) = event_uri quoteExportRow
   \<and> quoteExportRow \<in> set (dedupedRows dayFilters [''news'']
        (collisionDatabase [\<lparr> s_handle = ''b.example'', s_did = ''b'' \<rparr>]))
   \<and> length (filter (\<lambda>r. event_uri r = event_uri quoteExportRow)
        (dedupedRows dayFilters [''news'']
           (collisionDatabase [\<lparr> s_handle = ''b.example'', s_did = ''b'' \<rparr>]))) = 1"
proof -
  let ?db = "collisionDatabase [\<lparr> s_handle = ''b.example'', s_did = ''b'' \<rparr>]"
  note sc = collision_scoped_subscriber
  have pk: "distinct (map e_uri (engagement_tbl ?db)) \<and> distinct (map uri (post_tbl ?db))"
    by (simp add: collisionDatabase_def)
  have qin: "quoteExportRow \<in> set (scopedRows dayFilters [''news''] ?db)"
    by (simp add: sc)
  have best: "\<forall>x \<in> set (scopedRows dayFilters [''news''] ?db).
      event_uri x = event_uri quoteExportRow \<longrightarrow> winsOver quoteExportRow x"
    by (simp add: sc winsOver_def quoteExportRow_def commentExportRow_def)
  note t = dedupedRows_latest_then_rank [of dayFilters "[''news'']" ?db quoteExportRow _
      quoteExportRow]
  from t pk qin best
  have "quoteExportRow \<in> set (dedupedRows dayFilters [''news''] ?db)"
    by blast
  moreover from t qin
  have "length (filter (\<lambda>r. event_uri r = event_uri quoteExportRow)
        (dedupedRows dayFilters [''news''] ?db)) = 1"
    by blast
  moreover have "event_uri (commentExportRow True) = event_uri quoteExportRow"
    by (simp add: quoteExportRow_def commentExportRow_def)
  ultimately show ?thesis
    using sc by simp
qed

text \<open>
  When the author of the colliding post is no subscriber, the quote row (whose subject is
  no publisher's post) fails the scope filter: of the two rows in the window, created at the
  same instant, the output is the comment row, not the one with the higher type rank.
\<close>

theorem dedupedRows_in_window_counterexample:
  "baseRows (flt_since dayFilters) (flt_until dayFilters) (collisionDatabase []) =
     [(Quote, ''at://b/app.bsky.feed.post/q'', ''at://c/app.bsky.feed.post/9'', ''b'',
       ''2026-01-19T10:00:00.000Z''),
      (Comment, ''at://b/app.bsky.feed.post/q'', ''at://news/app.bsky.feed.post/1'', ''b'',
       ''2026-01-19T10:00:00.000Z'')]
   \<and> typeRank Comment < typeRank Quote
   \<and> dedupedRows dayFilters [''news''] (collisionDatabase []) = [commentExportRow False]
   \<and> x_type (commentExportRow False) = Comment"
  by (simp add: dedupedRows_def deduped_def sortRows_def collision_scoped_outsider)
    (simp add: baseRows_def dayFilters_def collisionDatabase_def mkPost_def typeOfCode_def
       commentExportRow_def)

section \<open>Properties of the export's cursor check\<close>












end
